theory Spec2Isabelle
  imports Main "HOL-Library.AList" "HOL-Library.List_Lexorder" "HOL-Library.Char_ord"
begin

section \<open>Values of the JavaScript program\<close>

text \<open>
  The build script (\<^verbatim>\<open>src/build.js\<close>) works on translation catalogs that
  \<^verbatim>\<open>require\<close> reads from JSON files. A catalog value is a string, \<^verbatim>\<open>null\<close> or an
  object; the list of an object gives its own properties in enumeration order (the order of
  \<^verbatim>\<open>for ... in\<close>). Numbers, booleans and arrays are not part of the model.
  A JavaScript expression that may also be \<^verbatim>\<open>undefined\<close> has type \<open>json option\<close>,
  with \<open>None\<close> for \<^verbatim>\<open>undefined\<close>. Strings are lists of characters.
\<close>

datatype json = JNull | JStr string | JObj "(string \<times> json) list"

text \<open>
  An exception, with its message. \<open>TypeError\<close> and \<open>RangeError\<close> are thrown by the
  language itself, \<open>Thrown\<close> by a library or by the platform (file system, module loader).
\<close>

datatype error = TypeError string | RangeError string | Thrown string

fun message :: "error \<Rightarrow> string" where
  "message (TypeError m) = m"
| "message (RangeError m) = m"
| "message (Thrown m) = m"

text \<open>
  How a call ends when it does not return: it throws an exception, or it goes on into a
  built-in object of the runtime. Every object inherits the members of
  \<^verbatim>\<open>Object.prototype\<close>, so that a catalog gives a built-in function under
  \<^verbatim>\<open>constructor\<close> or \<^verbatim>\<open>toString\<close> without having such a key. The model has the
  values of the catalogs and not the built-in objects: where the program starts to walk
  through one of them the model stops and names the member, and says nothing of what the
  program does from there.
\<close>

datatype halt = Throw error | Builtin string

text \<open>\<^verbatim>\<open>typeof v\<close>; note \<^verbatim>\<open>typeof null === 'object'\<close>.\<close>

fun typeof :: "json option \<Rightarrow> string" where
  "typeof None = ''undefined''"
| "typeof (Some JNull) = ''object''"
| "typeof (Some (JStr s)) = ''string''"
| "typeof (Some (JObj kvs)) = ''object''"

text \<open>
  The name of a value inside an error message: \<^verbatim>\<open>undefined\<close>, \<^verbatim>\<open>null\<close>, the string
  itself, \<^verbatim>\<open>#<Object>\<close>.
\<close>

fun describe :: "json option \<Rightarrow> string" where
  "describe None = ''undefined''"
| "describe (Some JNull) = ''null''"
| "describe (Some (JStr s)) = s"
| "describe (Some (JObj kvs)) = ''#<Object>''"

text \<open>
  The property read \<^verbatim>\<open>v.k\<close> for a name \<open>k\<close> that no prototype defines (the script
  reads \<^verbatim>\<open>releases\<close> and \<^verbatim>\<open>noChangelogMessage\<close> this way): on \<^verbatim>\<open>undefined\<close> and
  \<^verbatim>\<open>null\<close> it throws, on a string it gives \<^verbatim>\<open>undefined\<close>, on an object the own
  property or \<^verbatim>\<open>undefined\<close>.
\<close>

fun get_member :: "json option \<Rightarrow> string \<Rightarrow> error + json option" where
  "get_member (Some (JObj kvs)) k = Inr (map_of kvs k)"
| "get_member (Some (JStr s)) k = Inr None"
| "get_member v k =
     Inl (TypeError (''Cannot read properties of '' @ describe v @ '' (reading '' @ [CHR 0x27] @ k @ [CHR 0x27] @ '')''))"

text \<open>
  The conversion to a string inside a template literal \<^verbatim>\<open>`${v}`\<close>. A plain object
  prints as \<^verbatim>\<open>[object Object]\<close> through \<^verbatim>\<open>Object.prototype.toString\<close>; an own
  property \<^verbatim>\<open>toString\<close> read from JSON is not callable and hides that method, and then
  no conversion is left.
\<close>

fun to_string :: "json option \<Rightarrow> error + string" where
  "to_string None = Inr ''undefined''"
| "to_string (Some JNull) = Inr ''null''"
| "to_string (Some (JStr s)) = Inr s"
| "to_string (Some (JObj kvs)) =
     (if ''toString'' \<in> set (map fst kvs)
      then Inl (TypeError ''Cannot convert object to primitive value'')
      else Inr ''[object Object]'')"

section \<open>Strings\<close>

definition endsWith :: "string \<Rightarrow> string \<Rightarrow> bool" where
  "endsWith str suf \<longleftrightarrow>
     length suf \<le> length str \<and> drop (length str - length suf) str = suf"

text \<open>\<^verbatim>\<open>str.slice(0, -1)\<close>: all but the last character.\<close>

definition slice_0_m1 :: "string \<Rightarrow> string" where
  "slice_0_m1 str = take (length str - 1) str"

text \<open>
  \<^verbatim>\<open>
  function trimEndNewline(str) {
    if (str.endsWith('\n')) {
      return str.slice(0, -1);
    }
    return str;
  }
  \<close>
\<close>

definition trimEndNewline :: "string \<Rightarrow> string" where
  "trimEndNewline str = (if endsWith str [CHR 0x0A] then slice_0_m1 str else str)"

section \<open>The \<^verbatim>\<open>renderMarkdown\<close> helper\<close>

text \<open>
  \<^verbatim>\<open>
  Handlebars.registerHelper("renderMarkdown", function(key) {
    let markdown = i18next.t(key);
    if (markdown === undefined || markdown === '') {
      markdown = `*${currentResource.releases.noChangelogMessage}*`;
    } else {
      markdown = trimEndNewline(markdown);
    }
    const html = converter.makeHtml(markdown);
    return new Handlebars.SafeString(html);
  })
  \<close>
  The libraries are parameters: \<open>t\<close> is \<^verbatim>\<open>i18next.t\<close> (\<open>None\<close> when it gives
  \<^verbatim>\<open>undefined\<close>; for a key that the catalog has not it gives the key itself, with
  the options of the script), \<open>makeHtml\<close> is the Markdown converter of showdown.
  \<open>currentResource\<close> is the module's variable of that name, \<^verbatim>\<open>undefined\<close> until the
  render loop assigns it. \<open>SafeString\<close> marks a string that Handlebars embeds unescaped.
\<close>

datatype safe_string = SafeString string

definition placeholder :: "json option \<Rightarrow> error + string" where
  "placeholder currentResource =
     (case get_member currentResource ''releases'' of
        Inl e \<Rightarrow> Inl e
      | Inr releases \<Rightarrow>
         (case get_member releases ''noChangelogMessage'' of
            Inl e \<Rightarrow> Inl e
          | Inr msg \<Rightarrow>
             (case to_string msg of
                Inl e \<Rightarrow> Inl e
              | Inr s \<Rightarrow> Inr (''*'' @ s @ ''*''))))"

definition renderMarkdown ::
  "(string \<Rightarrow> string option) \<Rightarrow> (string \<Rightarrow> string) \<Rightarrow> json option \<Rightarrow> string \<Rightarrow> error + safe_string"
where
  "renderMarkdown t makeHtml currentResource key =
     (let markdown = t key in
      if markdown = None \<or> markdown = Some ''''
      then (case placeholder currentResource of
              Inl e \<Rightarrow> Inl e
            | Inr md \<Rightarrow> Inr (SafeString (makeHtml md)))
      else Inr (SafeString (makeHtml (trimEndNewline (the markdown)))))"

section \<open>Configuration\<close>

text \<open>
  \<^verbatim>\<open>
  const config = {
    localesDir: "./locales",
    templatesDir: "./src",
    componentsDir: "./components",
    outputDir: "./dist",
    excludePatterns: ["**/*.html", "**/*.hbs"],
    defaultLanguage: "en",
    safeTags: ["b", "i", "br", "code"],
    safeAttributes: [],
  };
  \<close>
  The functions below take the configuration as their first argument; the script reads
  the constant \<open>config\<close>.
\<close>

record config =
  localesDir :: string
  templatesDir :: string
  componentsDir :: string
  outputDir :: string
  excludePatterns :: "string list"
  defaultLanguage :: string
  safeTags :: "string list"
  safeAttributes :: "string list"

definition config :: config where
  "config = \<lparr> localesDir = ''./locales'', templatesDir = ''./src'',
     componentsDir = ''./components'', outputDir = ''./dist'',
     excludePatterns = [''**/*.html'', ''**/*.hbs''], defaultLanguage = ''en'',
     safeTags = [''b'', ''i'', ''br'', ''code''], safeAttributes = [] \<rparr>"

section \<open>The \<^verbatim>\<open>safe\<close> helper and its sanitizer\<close>

text \<open>
  \<^verbatim>\<open>toLowerCase\<close> on the letters of ASCII; other characters are left as they are.
\<close>

definition toLowerCase :: "string \<Rightarrow> string" where
  "toLowerCase s =
     map (\<lambda>c. case map_of (zip ''ABCDEFGHIJKLMNOPQRSTUVWXYZ'' ''abcdefghijklmnopqrstuvwxyz'') c of
                 Some l \<Rightarrow> l
               | None \<Rightarrow> c) s"

text \<open>
  A node of the parsed fragment is an object of the library parse5; the parser and the
  serializer are parameters of the helper. The model keeps the four fields that
  \<^verbatim>\<open>sanitize\<close> reads, each \<open>None\<close> when the object has no such field:
  \<^verbatim>\<open>type\<close>, \<^verbatim>\<open>name\<close>, \<^verbatim>\<open>attribs\<close> (an object from attribute names to values)
  and \<^verbatim>\<open>children\<close>. \<open>other\<close> stands for everything else the object carries (the
  text of a text node, fields under other names); the sanitizer never looks at it.
\<close>

datatype node = Node (ntype: "string option") (name: "string option")
  (attribs: "(string \<times> string) list option") (children: "node list option") (other: string)

text \<open>\<^verbatim>\<open>.filter(Boolean)\<close> on the results of \<^verbatim>\<open>sanitize\<close>: the empty string (\<open>None\<close>)
  is falsy, a node is truthy.\<close>

definition filter_Boolean :: "'a option list \<Rightarrow> 'a list" where
  "filter_Boolean rs = [n. Some n \<leftarrow> rs]"

text \<open>\<^verbatim>\<open>xs.map(f)\<close> for an \<open>f\<close> that may throw: the first exception ends the loop.\<close>

fun collect :: "(error + 'a) list \<Rightarrow> error + 'a list" where
  "collect [] = Inr []"
| "collect (r # rs) =
     (case r of
        Inl e \<Rightarrow> Inl e
      | Inr x \<Rightarrow> (case collect rs of Inl e \<Rightarrow> Inl e | Inr xs \<Rightarrow> Inr (x # xs)))"

text \<open>
  \<^verbatim>\<open>
  node.attribs = Object.keys(node.attribs).reduce((acc, attr) => {
    if (config.safeAttributes.includes(attr.toLowerCase())) {
      acc[attr] = node.attribs[attr];
    }
    return acc;
  }, {});
  \<close>
\<close>

definition sanitize_attribs :: "config \<Rightarrow> (string \<times> string) list \<Rightarrow> (string \<times> string) list" where
  "sanitize_attribs cfg attrs =
     foldl (\<lambda>acc attr.
              if toLowerCase attr \<in> set (safeAttributes cfg)
              then AList.update attr (the (map_of attrs attr)) acc
              else acc)
       [] (map fst attrs)"

text \<open>
  \<^verbatim>\<open>
  if (node.children) {
    node.children = node.children.map(sanitize).filter(Boolean);
  }
  return node;
  \<close>
  for the node \<open>n\<close> and the results \<open>rs\<close> of \<^verbatim>\<open>sanitize\<close> on its children.
\<close>

definition with_children :: "node \<Rightarrow> (error + node option) list option \<Rightarrow> error + node option" where
  "with_children n rs =
     (case rs of
        None \<Rightarrow> Inr (Some n)
      | Some rs \<Rightarrow>
         (case collect rs of
            Inl e \<Rightarrow> Inl e
          | Inr cs \<Rightarrow> Inr (Some (Node (ntype n) (name n) (attribs n) (Some (filter_Boolean cs)) (other n)))))"

text \<open>
  \<^verbatim>\<open>
  function sanitize(node) {
    if (node.type === "tag") {
      if (!config.safeTags.includes(node.name.toLowerCase())) {
        return "";
      }
      node.attribs = ... ;
    }
    if (node.children) {
      node.children = node.children.map(sanitize).filter(Boolean);
    }
    return node;
  }
  \<close>
  The result \<open>None\<close> is the empty string that the function returns for a dropped node.
  A node of type \<^verbatim>\<open>"tag"\<close> without a name or without attributes makes the method call
  on \<^verbatim>\<open>undefined\<close> throw.
\<close>

fun sanitize :: "config \<Rightarrow> node \<Rightarrow> error + node option" where
  "sanitize cfg (Node ty nm attrs ch d) =
     (if ty = Some ''tag'' then
        (case nm of
           None \<Rightarrow> Inl (TypeError ''Cannot read properties of undefined (reading 'toLowerCase')'')
         | Some tag \<Rightarrow>
            if toLowerCase tag \<notin> set (safeTags cfg) then Inr None
            else
              (case attrs of
                 None \<Rightarrow> Inl (TypeError ''Cannot convert undefined or null to object'')
               | Some as \<Rightarrow>
                  with_children (Node ty nm (Some (sanitize_attribs cfg as)) ch d)
                    (map_option (map (sanitize cfg)) ch)))
      else with_children (Node ty nm attrs ch d) (map_option (map (sanitize cfg)) ch))"

text \<open>
  \<^verbatim>\<open>
  Handlebars.registerHelper("safe", function (key) {
    const translatedString = i18next.t(key);
    ...
    const doc = parse5.parseFragment(translatedString);
    const sanitized = parse5.serialize(sanitize(doc));
    return new Handlebars.SafeString(sanitized);
  });
  \<close>
\<close>

definition safe ::
  "config \<Rightarrow> (string \<Rightarrow> string option) \<Rightarrow> (string option \<Rightarrow> error + node) \<Rightarrow>
   (node option \<Rightarrow> error + string) \<Rightarrow> string \<Rightarrow> error + safe_string"
where
  "safe cfg t parseFragment serialize key =
     (let translatedString = t key in
      case parseFragment translatedString of
        Inl e \<Rightarrow> Inl e
      | Inr doc \<Rightarrow>
         (case sanitize cfg doc of
            Inl e \<Rightarrow> Inl e
          | Inr clean \<Rightarrow>
             (case serialize clean of
                Inl e \<Rightarrow> Inl e
              | Inr sanitized \<Rightarrow> Inr (SafeString sanitized))))"

text \<open>
  Notions for stating what the sanitizer does. An element is a node whose \<^verbatim>\<open>type\<close> is
  \<^verbatim>\<open>"tag"\<close>: this is the test of \<^verbatim>\<open>sanitize\<close>. \<open>nodes_of\<close> lists a node and all
  its descendants, \<open>subtree_at\<close> follows a path of child positions, and \<open>delete_at\<close>
  removes the subtree at a path from its parent's child list.
\<close>

definition is_element :: "node \<Rightarrow> bool" where
  "is_element n \<longleftrightarrow> ntype n = Some ''tag''"

fun nodes_of :: "node \<Rightarrow> node list" where
  "nodes_of (Node ty nm attrs ch d) =
     Node ty nm attrs ch d #
     (case ch of None \<Rightarrow> [] | Some cs \<Rightarrow> concat (map nodes_of cs))"

fun subtree_at :: "nat list \<Rightarrow> node \<Rightarrow> node option" where
  "subtree_at [] n = Some n"
| "subtree_at (i # p) n =
     (case children n of
        None \<Rightarrow> None
      | Some cs \<Rightarrow> if i < length cs then subtree_at p (cs ! i) else None)"

fun delete_at :: "nat list \<Rightarrow> node \<Rightarrow> node" where
  "delete_at [] n = n"
| "delete_at [i] n =
     (case children n of
        None \<Rightarrow> n
      | Some cs \<Rightarrow> Node (ntype n) (name n) (attribs n) (Some (take i cs @ drop (Suc i) cs)) (other n))"
| "delete_at (i # p) n =
     (case children n of
        None \<Rightarrow> n
      | Some cs \<Rightarrow>
          if i < length cs
          then Node (ntype n) (name n) (attribs n) (Some (cs[i := delete_at p (cs ! i)])) (other n)
          else n)"

text \<open>
  Fragments for the examples, in the format whose field names \<^verbatim>\<open>sanitize\<close> uses: the
  text \<^verbatim>\<open>Hi\<close>, an allowed element \<^verbatim>\<open><b class="x">bold</b>\<close> and a \<^verbatim>\<open>DIV\<close>
  element around an allowed \<^verbatim>\<open><i>it</i>\<close>.
\<close>

definition example_text :: "string \<Rightarrow> node" where
  "example_text s = Node (Some ''text'') None None None s"

definition example_element :: "string \<Rightarrow> (string \<times> string) list \<Rightarrow> node list \<Rightarrow> node" where
  "example_element tag attrs cs = Node (Some ''tag'') (Some tag) (Some attrs) (Some cs) []"

definition example_fragment :: node where
  "example_fragment =
     Node (Some ''root'') None None
       (Some [example_text ''Hi '',
              example_element ''b'' [(''class'', ''x'')] [example_text ''bold''],
              example_element ''DIV'' [] [example_element ''i'' [] [example_text ''it'']]])
       []"

text \<open>
  The children that \<^verbatim>\<open>sanitize\<close> leaves of a child list: the sanitized children that
  are not dropped, unless one of them throws.
\<close>

definition kept_children :: "config \<Rightarrow> node list \<Rightarrow> error + node list" where
  "kept_children cfg cs =
     (case collect (map (sanitize cfg) cs) of
        Inl e \<Rightarrow> Inl e
      | Inr rs \<Rightarrow> Inr (filter_Boolean rs))"

section \<open>The logger\<close>

text \<open>
  \<^verbatim>\<open>log(message, type = "info")\<close> prints one line, through the GitHub Actions toolkit or
  on the console. The model keeps the lines in order, each with its type. For
  \<^verbatim>\<open>log(error.stack, "error")\<close> the text is the stack trace of the exception, which the
  runtime writes: the model records whose trace it is.
\<close>

datatype logged = Message string | StackOf error

type_synonym log_line = "string \<times> logged"

definition log :: "string \<Rightarrow> string \<Rightarrow> log_line" where
  "log msg type = (type, Message msg)"

section \<open>\<^verbatim>\<open>copyMissing\<close> on catalog trees\<close>

text \<open>
  The own enumerable properties of a value, as \<^verbatim>\<open>for (const key in from)\<close> visits them:
  those of an object, none for \<^verbatim>\<open>null\<close>, the positions of a string with its characters.
\<close>

fun show_nat :: "nat \<Rightarrow> string" where
  "show_nat n =
     (if n < 10 then [''0123456789'' ! n]
      else show_nat (n div 10) @ [''0123456789'' ! (n mod 10)])"

fun props :: "json \<Rightarrow> (string \<times> json) list" where
  "props (JObj kvs) = kvs"
| "props JNull = []"
| "props (JStr s) = map (\<lambda>i. (show_nat i, JStr [s ! i])) [0..<length s]"

text \<open>
  The members that every object inherits: the names of the properties of
  \<^verbatim>\<open>Object.prototype\<close>, as \<^verbatim>\<open>Object.getOwnPropertyNames\<close> lists them in Node 18
  (the version of \<^verbatim>\<open>src/Dockerfile\<close>). None of them is enumerable: \<^verbatim>\<open>for ... in\<close>
  does not visit them.
\<close>

definition inherited :: "string list" where
  "inherited =
     [''constructor'', ''__defineGetter__'', ''__defineSetter__'', ''hasOwnProperty'',
      ''__lookupGetter__'', ''__lookupSetter__'', ''isPrototypeOf'', ''propertyIsEnumerable'',
      ''toString'', ''valueOf'', ''__proto__'', ''toLocaleString'']"

text \<open>
  \<^verbatim>\<open>key in to\<close>: whether the object has the property, as its own or as an inherited
  one; on a string and on \<^verbatim>\<open>null\<close> the operator throws.
\<close>

fun js_in :: "string \<Rightarrow> json \<Rightarrow> error + bool" where
  "js_in key (JObj kvs) = Inr (map_of kvs key \<noteq> None \<or> key \<in> set inherited)"
| "js_in key v =
     Inl (TypeError (''Cannot use 'in' operator to search for ''
                     @ [CHR 0x27] @ key @ [CHR 0x27] @ '' in '' @ describe (Some v)))"

text \<open>
  \<^verbatim>\<open>to[key]\<close> and \<^verbatim>\<open>to[key] = v\<close> on an object, for its own properties; a new
  property comes last. \<open>js_get\<close> gives \<open>None\<close> for a key that the object has not as its
  own: the program then reads \<^verbatim>\<open>undefined\<close>, or the inherited member if \<open>key\<close> names
  one. The function writes \<^verbatim>\<open>to[key]\<close> when \<^verbatim>\<open>key in to\<close> is false, or when the
  object has the key as its own, and then the write makes or changes an own property.
\<close>

fun js_get :: "json \<Rightarrow> string \<Rightarrow> json option" where
  "js_get (JObj kvs) key = map_of kvs key"
| "js_get v key = None"

fun js_set :: "json \<Rightarrow> string \<Rightarrow> json \<Rightarrow> json" where
  "js_set (JObj kvs) key v = JObj (AList.update key v kvs)"
| "js_set v' key v = v'"

text \<open>
  \<^verbatim>\<open>
  function copyMissing(from, to, toName, keySoFar = '') {
    for (const key in from) {
      if (!(key in to)) {
        log(`Key ${keySoFar}${key} is missing from ${toName}`, 'warning')
        to[key] = from[key];
        continue;
      }

      if (typeof from[key] === 'object') {
        to[key] = copyMissing(from[key], to[key], toName, `${keySoFar}${key}.`);
      }
    }
    return to;
  }
  \<close>
  \<open>copyMissing_loop\<close> is the loop over the properties of \<open>from\<close> that are still to visit,
  each with its value \<^verbatim>\<open>from[key]\<close>. The function returns the target as the loop leaves
  it, or the way the loop halts, and the lines it has logged until then. Where
  \<^verbatim>\<open>key in to\<close> holds only because every object inherits the member, and
  \<^verbatim>\<open>from[key]\<close> is an object or \<^verbatim>\<open>null\<close>, the program calls itself on the built-in
  object \<^verbatim>\<open>to[key]\<close>: the model halts there. A catalog read from a JSON file is a tree
  that shares nothing with another catalog, so that the writes into \<open>to\<close> are the only
  changes.
\<close>

text \<open>The line \<^verbatim>\<open>log(`Key ${keySoFar}${key} is missing from ${toName}`, 'warning')\<close>.\<close>

definition missing_line :: "string \<Rightarrow> string \<Rightarrow> string \<Rightarrow> log_line" where
  "missing_line toName keySoFar key =
     log (''Key '' @ keySoFar @ key @ '' is missing from '' @ toName) ''warning''"

function copyMissing_loop ::
  "(string \<times> json) list \<Rightarrow> json \<Rightarrow> string \<Rightarrow> string \<Rightarrow> (halt + json) \<times> log_line list"
where
  "copyMissing_loop [] to toName keySoFar = (Inr to, [])"
| "copyMissing_loop ((key, v) # rest) to toName keySoFar =
     (case js_in key to of
        Inl e \<Rightarrow> (Inl (Throw e), [])
      | Inr False \<Rightarrow>
         (case copyMissing_loop rest (js_set to key v) toName keySoFar of
            (r, lines) \<Rightarrow> (r, missing_line toName keySoFar key # lines))
      | Inr True \<Rightarrow>
         if typeof (Some v) = ''object''
         then
           (case js_get to key of
              None \<Rightarrow> (Inl (Builtin key), [])
            | Some tv \<Rightarrow>
               (case copyMissing_loop (props v) tv toName (keySoFar @ key @ ''.'') of
                  (Inl e, lines) \<Rightarrow> (Inl e, lines)
                | (Inr sub, lines) \<Rightarrow>
                   (case copyMissing_loop rest (js_set to key sub) toName keySoFar of
                      (r, lines') \<Rightarrow> (r, lines @ lines'))))
         else copyMissing_loop rest to toName keySoFar)"
  by pat_completeness auto
termination
proof (relation "measure (\<lambda>(ps, to, toName, keySoFar). size_list (size_prod (\<lambda>k. 0) size) ps)")
  show "wf (measure (\<lambda>(ps, to, toName, keySoFar). size_list (size_prod (\<lambda>k. 0) size) ps))"
    by simp
next
  fix key :: string and v :: json and rest :: "(string \<times> json) list"
    and to tv :: json and toName keySoFar :: string
  assume "typeof (Some v) = ''object''"
  then have "size_list (size_prod (\<lambda>k. 0) size) (props v) < Suc (size v)"
    by (cases v) simp_all
  then show "((props v, tv, toName, keySoFar @ key @ ''.''),
              ((key, v) # rest, to, toName, keySoFar))
      \<in> measure (\<lambda>(ps, to, toName, keySoFar). size_list (size_prod (\<lambda>k. 0) size) ps)"
    by simp
qed simp_all

definition copyMissing ::
  "json \<Rightarrow> json \<Rightarrow> string \<Rightarrow> string \<Rightarrow> (halt + json) \<times> log_line list"
where
  "copyMissing from to toName keySoFar = copyMissing_loop (props from) to toName keySoFar"

text \<open>
  Notions for stating what the merge does. A key path is a list of keys; \<open>lookup\<close> follows
  it through nested objects. The path is printed with dots. A leaf is a value that is not
  an object. In a well-formed value no object has a key twice.
\<close>

fun lookup :: "json \<Rightarrow> string list \<Rightarrow> json option" where
  "lookup v [] = Some v"
| "lookup (JObj kvs) (k # ks) =
     (case map_of kvs k of None \<Rightarrow> None | Some v \<Rightarrow> lookup v ks)"
| "lookup v (k # ks) = None"


fun is_leaf :: "json \<Rightarrow> bool" where
  "is_leaf (JObj kvs) = False"
| "is_leaf v = True"

fun wf_json :: "json \<Rightarrow> bool" where
  "wf_json (JObj kvs) \<longleftrightarrow> distinct (map fst kvs) \<and> (\<forall>v \<in> set (map snd kvs). wf_json v)"
| "wf_json v \<longleftrightarrow> True"

text \<open>
  A value has plain keys when no key in it, at any depth, is the name of a member that
  every object inherits.
\<close>

fun plain_keys :: "json \<Rightarrow> bool" where
  "plain_keys (JObj kvs) \<longleftrightarrow>
     (\<forall>k \<in> set (map fst kvs). k \<notin> set inherited) \<and> (\<forall>v \<in> set (map snd kvs). plain_keys v)"
| "plain_keys v \<longleftrightarrow> True"

text \<open>
  The target fits the default catalog when it holds an object wherever the default catalog
  holds an object with a key and the target has the place: the target itself, and under
  every key that both have, the value of the target against the value of the default
  catalog, if that is an object or \<^verbatim>\<open>null\<close>.
\<close>

fun fits :: "json \<Rightarrow> json \<Rightarrow> bool" where
  "fits (JObj fkvs) to \<longleftrightarrow>
     fkvs = [] \<or>
     (case to of
        JObj kvs \<Rightarrow>
          (\<forall>kv \<in> set fkvs.
             case map_of kvs (fst kv) of
               None \<Rightarrow> True
             | Some tv \<Rightarrow> typeof (Some (snd kv)) = ''object'' \<longrightarrow> fits (snd kv) tv)
      | _ \<Rightarrow> False)"
| "fits JNull to \<longleftrightarrow> True"
| "fits (JStr s) to \<longleftrightarrow> s = [] \<or> (case to of JObj kvs \<Rightarrow> True | _ \<Rightarrow> False)"

text \<open>
  A key is backfilled when the default catalog has it and the target has the object that
  should hold it, but not the key.
\<close>

definition backfilled :: "json \<Rightarrow> json \<Rightarrow> string list \<Rightarrow> bool" where
  "backfilled from to p \<longleftrightarrow>
     p \<noteq> [] \<and> lookup from p \<noteq> None \<and> lookup to p = None \<and> lookup to (butlast p) \<noteq> None"

text \<open>
  Catalogs for the examples: a default catalog, and a German catalog that lacks
  \<^verbatim>\<open>greeting\<close> and \<^verbatim>\<open>nav.about\<close>.
\<close>

definition example_en :: json where
  "example_en =
     JObj [(''greeting'', JStr ''Hello''),
           (''nav'', JObj [(''home'', JStr ''Home''), (''about'', JStr ''About'')])]"

definition example_de :: json where
  "example_de = JObj [(''nav'', JObj [(''home'', JStr ''Start'')])]"

section \<open>Paths and strings of the build\<close>

text \<open>
  The functions of Node's \<^verbatim>\<open>path\<close> module (POSIX) that the script calls, on relative
  paths that do not end in a slash, as the script's are: a path is cut at its slashes,
  \<^verbatim>\<open>normalize\<close> drops empty segments and \<^verbatim>\<open>.\<close> and resolves \<^verbatim>\<open>..\<close> against the
  segment before it.
\<close>

fun split_path :: "string \<Rightarrow> string list" where
  "split_path [] = [[]]"
| "split_path (c # cs) =
     (if c = CHR ''/'' then [] # split_path cs
      else (case split_path cs of s # ss \<Rightarrow> (c # s) # ss | [] \<Rightarrow> [[c]]))"

fun join_path :: "string list \<Rightarrow> string" where
  "join_path [] = []"
| "join_path [s] = s"
| "join_path (s # ss) = s @ ''/'' @ join_path ss"

fun normalize_step :: "string list \<Rightarrow> string \<Rightarrow> string list" where
  "normalize_step stack seg =
     (if seg = [] \<or> seg = ''.'' then stack
      else if seg = ''..'' \<and> stack \<noteq> [] \<and> last stack \<noteq> ''..'' then butlast stack
      else stack @ [seg])"

definition normalize_segments :: "string list \<Rightarrow> string list" where
  "normalize_segments segs = foldl normalize_step [] segs"

definition path_normalize :: "string \<Rightarrow> string" where
  "path_normalize p =
     (let segs = normalize_segments (split_path p) in if segs = [] then ''.'' else join_path segs)"

definition path_join :: "string list \<Rightarrow> string" where
  "path_join parts =
     (let joined = join_path (filter (\<lambda>s. s \<noteq> []) parts)
      in if joined = [] then ''.'' else path_normalize joined)"

definition path_dirname :: "string \<Rightarrow> string" where
  "path_dirname p =
     (let segs = split_path p
      in if length segs \<le> 1 then ''.''
         else (let d = join_path (butlast segs) in if d = [] then ''/'' else d))"

definition path_basename :: "string \<Rightarrow> string" where
  "path_basename p = last (split_path p)"

fun common_prefix_length :: "'a list \<Rightarrow> 'a list \<Rightarrow> nat" where
  "common_prefix_length (x # xs) (y # ys) = (if x = y then Suc (common_prefix_length xs ys) else 0)"
| "common_prefix_length xs ys = 0"

definition path_relative :: "string \<Rightarrow> string \<Rightarrow> string" where
  "path_relative from to =
     (let f = normalize_segments (split_path from);
          t = normalize_segments (split_path to);
          n = common_prefix_length f t
      in join_path (replicate (length f - n) ''..'' @ drop n t))"

definition startsWith :: "string \<Rightarrow> string \<Rightarrow> bool" where
  "startsWith str pre \<longleftrightarrow> take (length pre) str = pre"

text \<open>\<^verbatim>\<open>str.replace(pat, rep)\<close> for a string \<open>pat\<close>: the first occurrence only.\<close>

fun replace_first :: "string \<Rightarrow> string \<Rightarrow> string \<Rightarrow> string" where
  "replace_first [] pat rep = (if pat = [] then rep else [])"
| "replace_first (c # cs) pat rep =
     (if startsWith (c # cs) pat then rep @ drop (length pat) (c # cs)
      else c # replace_first cs pat rep)"

text \<open>\<^verbatim>\<open>outputPath.replace(/\.hbs$/, ".html")\<close>\<close>

definition replace_hbs_suffix :: "string \<Rightarrow> string" where
  "replace_hbs_suffix p = (if endsWith p ''.hbs'' then take (length p - 4) p @ ''.html'' else p)"

text \<open>\<^verbatim>\<open>pattern.replace(/\*\*/g, ".*")\<close>\<close>

fun replace_globstar :: "string \<Rightarrow> string" where
  "replace_globstar (c # d # cs) =
     (if c = CHR ''*'' \<and> d = CHR ''*'' then ''.*'' @ replace_globstar cs
      else c # replace_globstar (d # cs))"
| "replace_globstar cs = cs"


section \<open>The build\<close>

text \<open>
  What the build does to the outside is a list of events in the order in which they
  happen: a line logged, an operation done on the output tree, an exception thrown by a
  call that the build makes (of the file system, of the module loader, of a library, or by
  the language itself). What it reads from the outside is
  an environment of functions: the directory listings, the files, the JSON modules, the
  globs and the libraries (i18next, Handlebars, the regular expressions,
  \<^verbatim>\<open>JSON.stringify\<close>), each with the exception it may throw. \<open>fs_error\<close> says, after the
  operations done so far, whether the next operation on the output tree fails. The build
  does not write what it reads.
\<close>

datatype fs_op = RmSync string | MkdirSync string | CopyFileSync string string | WriteFileSync string string

datatype event = Logged log_line | Done fs_op | Raised error

type_synonym world = "event list"

fun out_log :: "world \<Rightarrow> log_line list" where
  "out_log [] = []"
| "out_log (Logged l # w) = l # out_log w"
| "out_log (ev # w) = out_log w"

fun out_ops :: "world \<Rightarrow> fs_op list" where
  "out_ops [] = []"
| "out_ops (Done op # w) = op # out_ops w"
| "out_ops (ev # w) = out_ops w"

fun out_raised :: "world \<Rightarrow> error list" where
  "out_raised [] = []"
| "out_raised (Raised err # w) = err # out_raised w"
| "out_raised (ev # w) = out_raised w"

datatype template = Template string

record env =
  readdirSync :: "string \<Rightarrow> error + string list"
  require :: "string \<Rightarrow> error + json"
  i18next_init :: "string \<Rightarrow> (string \<times> json) list \<Rightarrow> error option"
  readFileSync :: "string \<Rightarrow> error + string"
  existsSync :: "string \<Rightarrow> bool"
  glob_sync :: "string \<Rightarrow> error + string list"
  regexp_test :: "string \<Rightarrow> string \<Rightarrow> bool"
  stringify :: "json \<Rightarrow> string"
  compile_error :: "string \<Rightarrow> error option"
  execute :: "(string \<times> string) list \<Rightarrow> (string \<times> json) list \<Rightarrow> template \<Rightarrow> json \<Rightarrow> error + string"
  fs_error :: "fs_op list \<Rightarrow> fs_op \<Rightarrow> error option"

text \<open>
  A step of the build takes the world and returns a value or the way it halts, with the
  world as it is then. A call that throws puts the exception into the world.
\<close>

type_synonym 'a io = "world \<Rightarrow> (halt + 'a) \<times> world"

definition ret :: "'a \<Rightarrow> 'a io" where
  "ret x = (\<lambda>w. (Inr x, w))"

definition bind :: "'a io \<Rightarrow> ('a \<Rightarrow> 'b io) \<Rightarrow> 'b io" where
  "bind m f = (\<lambda>w. case m w of (Inl e, w') \<Rightarrow> (Inl e, w') | (Inr x, w') \<Rightarrow> f x w')"

definition halt_io :: "halt \<Rightarrow> 'a io" where
  "halt_io h = (\<lambda>w. (Inl h, case h of Throw err \<Rightarrow> w @ [Raised err] | Builtin k \<Rightarrow> w))"

text \<open>The result of a call of the environment, and the result of \<open>copyMissing\<close>.\<close>

definition lift :: "error + 'a \<Rightarrow> 'a io" where
  "lift r = (case r of Inl err \<Rightarrow> halt_io (Throw err) | Inr x \<Rightarrow> ret x)"

definition lift_halt :: "halt + 'a \<Rightarrow> 'a io" where
  "lift_halt r = (case r of Inl h \<Rightarrow> halt_io h | Inr x \<Rightarrow> ret x)"

definition log_io :: "string \<Rightarrow> string \<Rightarrow> unit io" where
  "log_io msg type = (\<lambda>w. (Inr (), w @ [Logged (log msg type)]))"

definition log_lines :: "log_line list \<Rightarrow> unit io" where
  "log_lines ls = (\<lambda>w. (Inr (), w @ map Logged ls))"

definition fs_do :: "env \<Rightarrow> fs_op \<Rightarrow> unit io" where
  "fs_do e op =
     (\<lambda>w. case fs_error e (out_ops w) op of
             Some err \<Rightarrow> halt_io (Throw err) w
           | None \<Rightarrow> (Inr (), w @ [Done op]))"

text \<open>An array as \<^verbatim>\<open>log(locales)\<close> prints it: the elements with commas between.\<close>

fun join_commas :: "string list \<Rightarrow> string" where
  "join_commas [] = []"
| "join_commas [s] = s"
| "join_commas (s # ss) = s @ '','' @ join_commas ss"

text \<open>\<^verbatim>\<open>for (const x of xs) body\<close>, with a value carried from one round to the next.\<close>

fun foldM :: "('b \<Rightarrow> 'a \<Rightarrow> 'b io) \<Rightarrow> 'b \<Rightarrow> 'a list \<Rightarrow> 'b io" where
  "foldM f acc [] = ret acc"
| "foldM f acc (x # xs) = bind (f acc x) (\<lambda>acc'. foldM f acc' xs)"

definition forM :: "('a \<Rightarrow> unit io) \<Rightarrow> 'a list \<Rightarrow> unit io" where
  "forM f xs = foldM (\<lambda>u x. f x) () xs"

text \<open>
  \<^verbatim>\<open>
  const locales = fs.readdirSync(config.localesDir)
    .filter((file) => file.endsWith(".json"))
    .map((file) => file.replace(".json", ""))
    .sort();
  \<close>
\<close>

definition locale_names :: "string list \<Rightarrow> string list" where
  "locale_names files =
     sort (map (\<lambda>file. replace_first file ''.json'' [])
            (filter (\<lambda>file. endsWith file ''.json'') files))"

definition locale_path :: "config \<Rightarrow> string \<Rightarrow> string" where
  "locale_path cfg locale = ''./'' @ path_join [localesDir cfg, locale @ ''.json'']"

text \<open>
  \<^verbatim>\<open>
  locales.forEach((locale) => {
    const localePath = "./" + path.join(config.localesDir, `${locale}.json`);
    let json = require(localePath);
    if (locale !== config.defaultLanguage) {
      json = copyMissing(defaultLocale, json, localePath);
    }
    resources[locale] = { translation: json };
  });
  \<close>
  The model keeps \<open>resources\<close> as the list from locale to catalog.
\<close>

definition load_locale ::
  "config \<Rightarrow> env \<Rightarrow> json \<Rightarrow> (string \<times> json) list \<Rightarrow> string \<Rightarrow> (string \<times> json) list io"
where
  "load_locale cfg e defaultLocale resources locale =
     (let localePath = locale_path cfg locale in
      bind (lift (require e localePath)) (\<lambda>json.
        if locale \<noteq> defaultLanguage cfg
        then (case copyMissing defaultLocale json localePath [] of
                (merged, lines) \<Rightarrow>
                  bind (log_lines lines) (\<lambda>_.
                  bind (lift_halt merged) (\<lambda>json'. ret (AList.update locale json' resources))))
        else ret (AList.update locale json resources)))"

text \<open>
  \<^verbatim>\<open>
  componentFiles.forEach((componentFile) => {
    const raw = fs.readFileSync(path.join(config.componentsDir, componentFile + ".hbs"), "utf-8");
    Handlebars.registerPartial(componentFile, raw);
  });
  \<close>
\<close>

definition register_component ::
  "config \<Rightarrow> env \<Rightarrow> (string \<times> string) list \<Rightarrow> string \<Rightarrow> (string \<times> string) list io"
where
  "register_component cfg e partials componentFile =
     bind (lift (readFileSync e (path_join [componentsDir cfg, componentFile @ ''.hbs''])))
       (\<lambda>raw. ret (AList.update componentFile raw partials))"

text \<open>
  \<^verbatim>\<open>
  const nonHtmlFiles = glob.sync(`${config.templatesDir}/**/*`, { nodir: true })
    .filter((file) => !config.excludePatterns.some((pattern) => {
        const regex = new RegExp(pattern.replace(/\*\*/g, ".*"));
        return regex.test(file);
      }));
  nonHtmlFiles.forEach((file) => {
    const relativePath = path.relative(config.templatesDir, file);
    const outputPath = path.join(config.outputDir, relativePath);
    fs.mkdirSync(path.dirname(outputPath), { recursive: true });
    fs.copyFileSync(file, outputPath);
    log(`Copied: ${relativePath}`);
  });
  \<close>
\<close>

definition excluded :: "config \<Rightarrow> env \<Rightarrow> string \<Rightarrow> bool" where
  "excluded cfg e file \<longleftrightarrow>
     (\<exists>pattern \<in> set (excludePatterns cfg). regexp_test e (replace_globstar pattern) file)"

definition copy_file :: "config \<Rightarrow> env \<Rightarrow> string \<Rightarrow> unit io" where
  "copy_file cfg e file =
     (let relativePath = path_relative (templatesDir cfg) file;
          outputPath = path_join [outputDir cfg, relativePath] in
      bind (fs_do e (MkdirSync (path_dirname outputPath))) (\<lambda>_.
      bind (fs_do e (CopyFileSync file outputPath)) (\<lambda>_.
      log_io (''Copied: '' @ relativePath) ''info'')))"

text \<open>
  \<^verbatim>\<open>
  let localesList = {};
  for (const locale of locales) {
    const resources = i18next.getResourceBundle(locale, "translation");
    localesList[resources.locale.code] = resources.locale;
  }
  \<close>
  \<^verbatim>\<open>getResourceBundle\<close> gives the catalog stored for the locale.
\<close>

definition getResourceBundle :: "(string \<times> json) list \<Rightarrow> string \<Rightarrow> json option" where
  "getResourceBundle store locale = map_of store locale"

definition list_locale :: "(string \<times> json) list \<Rightarrow> json \<Rightarrow> string \<Rightarrow> json io" where
  "list_locale store localesList locale =
     (let resources = getResourceBundle store locale in
      bind (lift (get_member resources ''locale'')) (\<lambda>loc.
      bind (lift (get_member loc ''code'')) (\<lambda>code.
      bind (lift (to_string code)) (\<lambda>key.
      ret (js_set localesList key (the loc))))))"

text \<open>
  \<^verbatim>\<open>
  for (const locale of locales) {
    const resources = i18next.getResourceBundle(locale, "translation");
    resources.data = { locales: localesList };
    const raw = JSON.stringify(resources, null, "\t");
    fs.writeFileSync(path.join(outputPath, locale + ".json"), raw);
  }
  \<close>
\<close>

definition write_manifest ::
  "env \<Rightarrow> string \<Rightarrow> json \<Rightarrow> (string \<times> json) list \<Rightarrow> string \<Rightarrow> (string \<times> json) list io"
where
  "write_manifest e outputPath localesList store locale =
     (let resources = js_set (the (getResourceBundle store locale)) ''data''
                        (JObj [(''locales'', localesList)]);
          raw = stringify e resources in
      bind (fs_do e (WriteFileSync (path_join [outputPath, locale @ ''.json'']) raw)) (\<lambda>_.
      ret (AList.update locale resources store)))"

text \<open>
  \<^verbatim>\<open>
  for (const locale of locales) {
    const resources = i18next.getResourceBundle(locale, "translation");
    currentResource = resources;
    const relativePath = path.relative(config.templatesDir, templateFile);
    let url = path.dirname(relativePath);
    if (url === '.') url = '';
    else url = url + '/';
    resources.data.relativeURL = url;
    const htmlContent = template(resources);

    let outputPath = path.join(config.outputDir, locale, relativePath);
    if (outputPath.endsWith(".hbs")) {
      outputPath = outputPath.replace(/\.hbs$/, ".html");
    }
    fs.mkdirSync(path.dirname(outputPath), { recursive: true });
    fs.writeFileSync(outputPath, htmlContent);
    if (locale === config.defaultLanguage) {
      outputPath = path.join(config.outputDir, relativePath);
      if (outputPath.endsWith(".hbs")) {
        outputPath = outputPath.replace(/\.hbs$/, ".html");
      }
      fs.mkdirSync(path.dirname(outputPath), { recursive: true });
      fs.writeFileSync(outputPath, htmlContent);
    }
    log(`Built: ${outputPath} (locale: ${locale})`);
  }
  \<close>
  The helpers that the template calls read \<^verbatim>\<open>currentResource\<close>, which is the context
  \<open>resources\<close> of the call, and the store of i18next; both are arguments of \<open>execute\<close>.
\<close>

text \<open>
  \<^verbatim>\<open>Handlebars.compile\<close> returns the template function without reading the source:
  Handlebars compiles a template when it is first called. So a call of the template throws
  the error of the compilation, if there is one, and otherwise what the execution throws.
\<close>

definition compile :: "string \<Rightarrow> template" where
  "compile source = Template source"

definition call_template ::
  "env \<Rightarrow> (string \<times> string) list \<Rightarrow> (string \<times> json) list \<Rightarrow> template \<Rightarrow> json \<Rightarrow> error + string"
where
  "call_template e partials store tpl resources =
     (case tpl of Template source \<Rightarrow>
        (case compile_error e source of
           Some err \<Rightarrow> Inl err
         | None \<Rightarrow> execute e partials store tpl resources))"

definition relative_url :: "string \<Rightarrow> string" where
  "relative_url relativePath =
     (let url = path_dirname relativePath in if url = ''.'' then [] else url @ ''/'')"

definition output_path :: "string list \<Rightarrow> string" where
  "output_path parts =
     (let outputPath = path_join parts
      in if endsWith outputPath ''.hbs'' then replace_hbs_suffix outputPath else outputPath)"

definition set_relativeURL :: "json option \<Rightarrow> string \<Rightarrow> error + json" where
  "set_relativeURL resources url =
     (case get_member resources ''data'' of
        Inl err \<Rightarrow> Inl err
      | Inr None \<Rightarrow>
          Inl (TypeError ''Cannot set properties of undefined (setting 'relativeURL')'')
      | Inr (Some JNull) \<Rightarrow>
          Inl (TypeError ''Cannot set properties of null (setting 'relativeURL')'')
      | Inr (Some d) \<Rightarrow> Inr (js_set (the resources) ''data'' (js_set d ''relativeURL'' (JStr url))))"

definition render_locale ::
  "config \<Rightarrow> env \<Rightarrow> (string \<times> string) list \<Rightarrow> string \<Rightarrow> template \<Rightarrow>
   (string \<times> json) list \<Rightarrow> string \<Rightarrow> (string \<times> json) list io"
where
  "render_locale cfg e partials templateFile tpl store locale =
     (let relativePath = path_relative (templatesDir cfg) templateFile;
          url = relative_url relativePath in
      bind (lift (set_relativeURL (getResourceBundle store locale) url)) (\<lambda>resources.
      let store' = AList.update locale resources store in
      bind (lift (call_template e partials store' tpl resources)) (\<lambda>htmlContent.
      let outputPath = output_path [outputDir cfg, locale, relativePath] in
      bind (fs_do e (MkdirSync (path_dirname outputPath))) (\<lambda>_.
      bind (fs_do e (WriteFileSync outputPath htmlContent)) (\<lambda>_.
      if locale = defaultLanguage cfg
      then
        (let outputPath = output_path [outputDir cfg, relativePath] in
         bind (fs_do e (MkdirSync (path_dirname outputPath))) (\<lambda>_.
         bind (fs_do e (WriteFileSync outputPath htmlContent)) (\<lambda>_.
         bind (log_io (''Built: '' @ outputPath @ '' (locale: '' @ locale @ '')'') ''info'') (\<lambda>_.
         ret store'))))
      else
        bind (log_io (''Built: '' @ outputPath @ '' (locale: '' @ locale @ '')'') ''info'') (\<lambda>_.
        ret store'))))))"

text \<open>
  \<^verbatim>\<open>
  for (const templateFile of templateFiles) {
    const template = Handlebars.compile(fs.readFileSync(templateFile, "utf8"));
    for (const locale of locales) { ... }
  }
  \<close>
\<close>


definition render_template ::
  "config \<Rightarrow> env \<Rightarrow> (string \<times> string) list \<Rightarrow> string list \<Rightarrow>
   (string \<times> json) list \<Rightarrow> string \<Rightarrow> (string \<times> json) list io"
where
  "render_template cfg e partials locales store templateFile =
     bind (lift (readFileSync e templateFile)) (\<lambda>source.
     let tpl = compile source in
     foldM (render_locale cfg e partials templateFile tpl) store locales)"

text \<open>The body of the \<^verbatim>\<open>try\<close> block of \<^verbatim>\<open>build\<close>, step by step as in the script.\<close>

definition build_body :: "config \<Rightarrow> env \<Rightarrow> unit io" where
  "build_body cfg e =
     bind (log_io ''Starting build...'' ''info'') (\<lambda>_.
     bind (lift (readdirSync e (localesDir cfg))) (\<lambda>files.
     let locales = locale_names files in
     bind (lift (require e (''./'' @ path_join [localesDir cfg, defaultLanguage cfg @ ''.json'']))) (\<lambda>defaultLocale.
     bind (foldM (load_locale cfg e defaultLocale) [] locales) (\<lambda>resources.
     bind (log_io (join_commas locales) ''info'') (\<lambda>_.
     bind (lift (case i18next_init e (defaultLanguage cfg) resources of
                   Some err \<Rightarrow> Inl err | None \<Rightarrow> Inr ())) (\<lambda>_.
     bind (lift (readdirSync e (componentsDir cfg))) (\<lambda>files.
     let componentFiles = map (\<lambda>file. replace_first file ''.hbs'' [])
                            (filter (\<lambda>file. endsWith file ''.hbs'') files) in
     bind (foldM (register_component cfg e) [] componentFiles) (\<lambda>partials.
     bind (if existsSync e (outputDir cfg) then fs_do e (RmSync (outputDir cfg)) else ret ()) (\<lambda>_.
     bind (lift (glob_sync e (templatesDir cfg @ ''/**/*''))) (\<lambda>files.
     let nonHtmlFiles = filter (\<lambda>file. \<not> excluded cfg e file) files in
     bind (forM (copy_file cfg e) nonHtmlFiles) (\<lambda>_.
     bind (foldM (list_locale resources) (JObj []) locales) (\<lambda>localesList.
     let outputPath = path_join [outputDir cfg, ''resources'', ''locales''] in
     bind (fs_do e (MkdirSync outputPath)) (\<lambda>_.
     bind (foldM (write_manifest e outputPath localesList) resources locales) (\<lambda>store.
     bind (lift (glob_sync e (templatesDir cfg @ ''/**/*.{html,hbs}''))) (\<lambda>files.
     let templateFiles = filter (\<lambda>filePath. \<not> startsWith (path_basename filePath) ''_'') files in
     bind (foldM (render_template cfg e partials locales) store templateFiles) (\<lambda>_.
     log_io ''Build complete!'' ''info''))))))))))))))))"



text \<open>
  \<^verbatim>\<open>
  async function build() {
    try {
      ...
    } catch (error) {
      log(`Build failed: ${error.message}`, "error");
      log(error.stack, "error");
      exit(1);
    }
  }
  \<close>
  The result is the exit code of the process with the final world: \<open>1\<close> from
  \<^verbatim>\<open>exit(1)\<close>, \<open>0\<close> when \<^verbatim>\<open>build\<close> returns and the process ends by itself. There
  is no result where the merge of a catalog goes on into a built-in object.
\<close>

definition build :: "config \<Rightarrow> env \<Rightarrow> world \<Rightarrow> (nat \<times> world) option" where
  "build cfg e w =
     (case build_body cfg e w of
        (Inr _, w') \<Rightarrow> Some (0, w')
      | (Inl (Throw error), w') \<Rightarrow>
          Some (1, w' @ [Logged (log (''Build failed: '' @ message error) ''error''),
                         Logged (''error'', StackOf error)])
      | (Inl (Builtin k), w') \<Rightarrow> None)"












section \<open>\<^verbatim>\<open>copyMissing\<close> on a store of objects\<close>






















section \<open>Properties of \<^verbatim>\<open>trimEndNewline\<close> and \<^verbatim>\<open>renderMarkdown\<close>\<close>

lemma endsWith_newline: "endsWith s [CHR 0x0A] \<longleftrightarrow> s \<noteq> [] \<and> last s = CHR 0x0A"
proof (cases s rule: rev_cases)
  case Nil
  then show ?thesis by (simp add: endsWith_def)
next
  case (snoc ys y)
  then show ?thesis by (auto simp: endsWith_def)
qed

lemma trimEndNewline_snoc: "trimEndNewline (s @ [CHR 0x0A]) = s"
  by (simp add: trimEndNewline_def endsWith_def slice_0_m1_def)

lemma trimEndNewline_butlast: "endsWith s [CHR 0x0A] \<Longrightarrow> trimEndNewline s = butlast s"
  by (simp add: trimEndNewline_def slice_0_m1_def butlast_conv_take)

lemma trimEndNewline_other: "\<not> endsWith s [CHR 0x0A] \<Longrightarrow> trimEndNewline s = s"
  by (simp add: trimEndNewline_def)

lemma renderMarkdown_value:
  "t key = Some s \<Longrightarrow> s \<noteq> [] \<Longrightarrow>
   renderMarkdown t makeHtml currentResource key = Inr (SafeString (makeHtml (trimEndNewline s)))"
  by (simp add: renderMarkdown_def)

lemma renderMarkdown_empty:
  "t key = None \<or> t key = Some [] \<Longrightarrow>
   renderMarkdown t makeHtml currentResource key =
     (case placeholder currentResource of
        Inl e \<Rightarrow> Inl e
      | Inr md \<Rightarrow> Inr (SafeString (makeHtml md)))"
  by (auto simp: renderMarkdown_def)

text \<open>
  On the empty string, and on \<^verbatim>\<open>undefined\<close>, the helper returns the message that the
  rendering catalog holds under \<^verbatim>\<open>releases.noChangelogMessage\<close>, between two
  asterisks (Markdown emphasis), converted to HTML and marked safe. The message is read from
  the catalog itself: the result does not mention the translation function \<open>t\<close>.
\<close>

lemma renderMarkdown_placeholder:
  assumes "t key = None \<or> t key = Some []"
    and "currentResource = Some (JObj catalog)"
    and "map_of catalog ''releases'' = Some (JObj releases)"
    and "map_of releases ''noChangelogMessage'' = Some (JStr msg)"
  shows "renderMarkdown t makeHtml currentResource key =
           Inr (SafeString (makeHtml (''*'' @ msg @ ''*'')))"
  using assms by (auto simp: renderMarkdown_def placeholder_def)

text \<open>
  C6. The script initialises i18next with the language and the resources and sets no other
  option, and then \<^verbatim>\<open>i18next.t\<close> gives for a key that the catalog has not the key itself,
  not \<^verbatim>\<open>undefined\<close>. So for an absent key the test \<^verbatim>\<open>markdown === undefined\<close> of
  the helper is false: the helper converts the text of the key, with a trailing newline
  removed, and does not return the placeholder. The placeholder is returned for a key
  whose value is the empty string.
\<close>

theorem renderMarkdown_absent_key:
  assumes "t key = Some key" and "key \<noteq> []"
  shows "renderMarkdown t makeHtml currentResource key =
           Inr (SafeString (makeHtml (trimEndNewline key)))"
  using assms by (simp add: renderMarkdown_def)

theorem renderMarkdown_absent_key_witness:
  "renderMarkdown
     (\<lambda>k. case map_of [(''title'', ''Easy''), (''releases.v1.changelog'', [])] k of
            Some s \<Rightarrow> Some s | None \<Rightarrow> Some k)
     (\<lambda>m. ''<p>'' @ m @ ''</p>'')
     (Some (JObj [(''title'', JStr ''Easy''),
                  (''releases'', JObj [(''noChangelogMessage'', JStr ''No changelog'')])]))
     ''releases.v9.changelog''
   = Inr (SafeString ''<p>releases.v9.changelog</p>'')
   \<and> renderMarkdown
     (\<lambda>k. case map_of [(''title'', ''Easy''), (''releases.v1.changelog'', [])] k of
            Some s \<Rightarrow> Some s | None \<Rightarrow> Some k)
     (\<lambda>m. ''<p>'' @ m @ ''</p>'')
     (Some (JObj [(''title'', JStr ''Easy''),
                  (''releases'', JObj [(''noChangelogMessage'', JStr ''No changelog'')])]))
     ''releases.v1.changelog''
   = Inr (SafeString ''<p>*No changelog*</p>'')"
proof
  show "renderMarkdown
     (\<lambda>k. case map_of [(''title'', ''Easy''), (''releases.v1.changelog'', [])] k of
            Some s \<Rightarrow> Some s | None \<Rightarrow> Some k)
     (\<lambda>m. ''<p>'' @ m @ ''</p>'')
     (Some (JObj [(''title'', JStr ''Easy''),
                  (''releases'', JObj [(''noChangelogMessage'', JStr ''No changelog'')])]))
     ''releases.v9.changelog''
   = Inr (SafeString ''<p>releases.v9.changelog</p>'')"
    using renderMarkdown_absent_key
      [of "\<lambda>k. case map_of [(''title'', ''Easy''), (''releases.v1.changelog'', [])] k of
            Some s \<Rightarrow> Some s | None \<Rightarrow> Some k"
          "''releases.v9.changelog''"
          "\<lambda>m. ''<p>'' @ m @ ''</p>''"
          "Some (JObj [(''title'', JStr ''Easy''),
                  (''releases'', JObj [(''noChangelogMessage'', JStr ''No changelog'')])])"]
    by (simp add: trimEndNewline_def endsWith_def)
  show "renderMarkdown
     (\<lambda>k. case map_of [(''title'', ''Easy''), (''releases.v1.changelog'', [])] k of
            Some s \<Rightarrow> Some s | None \<Rightarrow> Some k)
     (\<lambda>m. ''<p>'' @ m @ ''</p>'')
     (Some (JObj [(''title'', JStr ''Easy''),
                  (''releases'', JObj [(''noChangelogMessage'', JStr ''No changelog'')])]))
     ''releases.v1.changelog''
   = Inr (SafeString ''<p>*No changelog*</p>'')"
    by (simp add: renderMarkdown_def placeholder_def)
qed

text \<open>
  C8, as stated, compares two runs of the helper: on a value \<open>s\<close> that ends in a newline
  and on \<open>s\<close> without that newline. For the value that is a single newline the second run
  is on the empty string and takes the placeholder branch, while the first converts the
  empty Markdown text. (The converter below stands for showdown; any converter that tells
  the two texts apart gives the same difference.)
\<close>

theorem renderMarkdown_newline_counterexample:
  "renderMarkdown (\<lambda>k. Some [CHR 0x0A]) (\<lambda>m. ''<p>'' @ m @ ''</p>'')
     (Some (JObj [(''releases'', JObj [(''noChangelogMessage'', JStr ''No changelog'')])]))
     ''changelog''
   = Inr (SafeString ''<p></p>'') \<and>
   renderMarkdown (\<lambda>k. Some (butlast [CHR 0x0A])) (\<lambda>m. ''<p>'' @ m @ ''</p>'')
     (Some (JObj [(''releases'', JObj [(''noChangelogMessage'', JStr ''No changelog'')])]))
     ''changelog''
   = Inr (SafeString ''<p>*No changelog*</p>'')"
  by (simp add: renderMarkdown_def placeholder_def trimEndNewline_def endsWith_def
      slice_0_m1_def)

text \<open>
  C8, amended: on a non-empty value \<open>s\<close> that ends in a newline the helper returns the
  conversion of \<open>s\<close> without its last character; this is also what the helper returns on
  that shorter value, provided the shorter value is not empty and does not end in a newline
  itself. One newline only is removed: of two, one stays.
\<close>

theorem renderMarkdown_trailing_newline:
  assumes "t key = Some s" and "s \<noteq> []" and "endsWith s [CHR 0x0A]"
  shows "renderMarkdown t makeHtml currentResource key = Inr (SafeString (makeHtml (butlast s)))
       \<and> (butlast s \<noteq> [] \<and> \<not> endsWith (butlast s) [CHR 0x0A] \<longrightarrow>
            renderMarkdown (t(key := Some (butlast s))) makeHtml currentResource key =
            renderMarkdown t makeHtml currentResource key)
       \<and> (\<forall>u. s = u @ [CHR 0x0A, CHR 0x0A] \<longrightarrow> trimEndNewline s = u @ [CHR 0x0A])"
proof (intro conjI impI allI)
  show first: "renderMarkdown t makeHtml currentResource key =
      Inr (SafeString (makeHtml (butlast s)))"
    using assms by (simp add: renderMarkdown_value trimEndNewline_butlast)
  show "renderMarkdown (t(key := Some (butlast s))) makeHtml currentResource key =
        renderMarkdown t makeHtml currentResource key"
    if "butlast s \<noteq> [] \<and> \<not> endsWith (butlast s) [CHR 0x0A]"
    using that first
    by (simp add: renderMarkdown_value [where s = "butlast s"] trimEndNewline_other)
  show "trimEndNewline s = u @ [CHR 0x0A]" if "s = u @ [CHR 0x0A, CHR 0x0A]" for u
    using that trimEndNewline_snoc [of "u @ [CHR 0x0A]"] by simp
qed

theorem renderMarkdown_trailing_newline_witness:
  "renderMarkdown (\<lambda>k. Some (''# Fixes'' @ [CHR 0x0A, CHR 0x0A])) (\<lambda>m. ''<p>'' @ m @ ''</p>'') None ''log''
     = Inr (SafeString (''<p># Fixes'' @ [CHR 0x0A] @ ''</p>''))
   \<and> renderMarkdown (\<lambda>k. Some (''# Fixes'' @ [CHR 0x0A])) (\<lambda>m. ''<p>'' @ m @ ''</p>'') None ''log''
     = renderMarkdown (\<lambda>k. Some ''# Fixes'') (\<lambda>m. ''<p>'' @ m @ ''</p>'') None ''log''"
proof
  show "renderMarkdown (\<lambda>k. Some (''# Fixes'' @ [CHR 0x0A, CHR 0x0A])) (\<lambda>m. ''<p>'' @ m @ ''</p>'') None ''log''
     = Inr (SafeString (''<p># Fixes'' @ [CHR 0x0A] @ ''</p>''))"
    using renderMarkdown_trailing_newline
      [of "\<lambda>k. Some (''# Fixes'' @ [CHR 0x0A, CHR 0x0A])" "''log''"
          "''# Fixes'' @ [CHR 0x0A, CHR 0x0A]" "\<lambda>m. ''<p>'' @ m @ ''</p>''" None]
    by (simp add: endsWith_def)
  show "renderMarkdown (\<lambda>k. Some (''# Fixes'' @ [CHR 0x0A])) (\<lambda>m. ''<p>'' @ m @ ''</p>'') None ''log''
     = renderMarkdown (\<lambda>k. Some ''# Fixes'') (\<lambda>m. ''<p>'' @ m @ ''</p>'') None ''log''"
    using renderMarkdown_trailing_newline
      [of "\<lambda>k. Some (''# Fixes'' @ [CHR 0x0A])" "''log''"
          "''# Fixes'' @ [CHR 0x0A]" "\<lambda>m. ''<p>'' @ m @ ''</p>''" None]
    by (simp add: endsWith_def renderMarkdown_def)
qed

text \<open>
  C10, as stated, says that the placeholder access fails whenever the catalog lacks a
  \<^verbatim>\<open>releases\<close> mapping with a \<^verbatim>\<open>noChangelogMessage\<close> entry. A catalog whose
  \<^verbatim>\<open>releases\<close> object has no such entry does not fail: the read gives
  \<^verbatim>\<open>undefined\<close>, which the template literal prints.
\<close>

theorem renderMarkdown_guard_counterexample:
  "map_of [] ''noChangelogMessage'' = (None :: json option) \<and>
   renderMarkdown (\<lambda>k. None) (\<lambda>m. ''<p>'' @ m @ ''</p>'')
     (Some (JObj [(''releases'', JObj [])])) ''changelog''
   = Inr (SafeString ''<p>*undefined*</p>'')"
  by (simp add: renderMarkdown_def placeholder_def)

text \<open>
  C10, amended: in the placeholder branch the helper reads
  \<^verbatim>\<open>currentResource.releases.noChangelogMessage\<close> unguarded. When the catalog has a
  \<^verbatim>\<open>releases\<close> object with a string under \<^verbatim>\<open>noChangelogMessage\<close> the helper
  returns; when the catalog has no \<^verbatim>\<open>releases\<close> entry, or \<^verbatim>\<open>null\<close> there, or
  when no catalog is assigned yet, the read throws a \<^verbatim>\<open>TypeError\<close>; when
  \<^verbatim>\<open>releases\<close> is an object without the entry nothing is thrown and the placeholder
  text is \<^verbatim>\<open>*undefined*\<close>.
\<close>

theorem renderMarkdown_placeholder_access:
  assumes "t key = None \<or> t key = Some []"
  shows "(\<forall>catalog releases msg.
            currentResource = Some (JObj catalog) \<and>
            map_of catalog ''releases'' = Some (JObj releases) \<and>
            map_of releases ''noChangelogMessage'' = Some (JStr msg) \<longrightarrow>
            (\<exists>html. renderMarkdown t makeHtml currentResource key = Inr html))
       \<and> ((currentResource = None \<or>
             (\<exists>catalog. currentResource = Some (JObj catalog) \<and>
                (map_of catalog ''releases'' = None \<or> map_of catalog ''releases'' = Some JNull))) \<longrightarrow>
            (\<exists>m. renderMarkdown t makeHtml currentResource key = Inl (TypeError m)))
       \<and> (\<forall>catalog releases.
            currentResource = Some (JObj catalog) \<and>
            map_of catalog ''releases'' = Some (JObj releases) \<and>
            map_of releases ''noChangelogMessage'' = None \<longrightarrow>
            renderMarkdown t makeHtml currentResource key =
              Inr (SafeString (makeHtml ''*undefined*'')))"
  using assms by (auto simp: renderMarkdown_def placeholder_def)

theorem renderMarkdown_placeholder_access_witness:
  "(\<exists>html. renderMarkdown (\<lambda>k. None) (\<lambda>m. m)
       (Some (JObj [(''releases'', JObj [(''noChangelogMessage'', JStr ''None yet'')])])) ''log'' = Inr html)
   \<and> (\<exists>m. renderMarkdown (\<lambda>k. None) (\<lambda>m. m) (Some (JObj [(''title'', JStr ''Easy'')])) ''log''
          = Inl (TypeError m))
   \<and> renderMarkdown (\<lambda>k. None) (\<lambda>m. m) (Some (JObj [(''releases'', JObj [])])) ''log''
       = Inr (SafeString ''*undefined*'')"
proof (intro conjI)
  show "\<exists>html. renderMarkdown (\<lambda>k. None) (\<lambda>m. m)
       (Some (JObj [(''releases'', JObj [(''noChangelogMessage'', JStr ''None yet'')])])) ''log'' = Inr html"
    using renderMarkdown_placeholder_access
      [of "\<lambda>k. None" "''log''"
          "Some (JObj [(''releases'', JObj [(''noChangelogMessage'', JStr ''None yet'')])])" "\<lambda>m. m"]
    by simp
  show "\<exists>m. renderMarkdown (\<lambda>k. None) (\<lambda>m. m) (Some (JObj [(''title'', JStr ''Easy'')])) ''log''
          = Inl (TypeError m)"
    using renderMarkdown_placeholder_access
      [of "\<lambda>k. None" "''log''" "Some (JObj [(''title'', JStr ''Easy'')])" "\<lambda>m. m"]
    by simp
  show "renderMarkdown (\<lambda>k. None) (\<lambda>m. m) (Some (JObj [(''releases'', JObj [])])) ''log''
       = Inr (SafeString ''*undefined*'')"
    using renderMarkdown_placeholder_access
      [of "\<lambda>k. None" "''log''" "Some (JObj [(''releases'', JObj [])])" "\<lambda>m. m"]
    by simp
qed

section \<open>Properties of the sanitizer\<close>

lemma filter_Boolean_simps [simp]:
  "filter_Boolean [] = []"
  "filter_Boolean (None # rs) = filter_Boolean rs"
  "filter_Boolean (Some x # rs) = x # filter_Boolean rs"
  "filter_Boolean (rs @ rs') = filter_Boolean rs @ filter_Boolean rs'"
  by (simp_all add: filter_Boolean_def)

lemma set_filter_Boolean: "set (filter_Boolean rs) = {x. Some x \<in> set rs}"
  by (induction rs) (auto simp: filter_Boolean_def split: option.splits)

lemma collect_Inr: "collect rs = Inr xs \<Longrightarrow> rs = map Inr xs"
  by (induction rs arbitrary: xs) (auto split: sum.splits)

lemma filter_Boolean_Cons: "filter_Boolean (r # rs) = (case r of None \<Rightarrow> [] | Some x \<Rightarrow> [x]) @ filter_Boolean rs"
  by (cases r) simp_all

lemma collect_drop_None:
  "(case collect (xs @ Inr None # ys) of Inl e \<Rightarrow> Inl e | Inr cs \<Rightarrow> Inr (filter_Boolean cs)) =
   (case collect (xs @ ys) of Inl e \<Rightarrow> Inl e | Inr cs \<Rightarrow> Inr (filter_Boolean cs))"
  by (induction xs) (auto split: sum.splits simp: filter_Boolean_Cons)

lemma with_children_drop_None:
  "with_children n (Some (xs @ Inr None # ys)) = with_children n (Some (xs @ ys))"
  using collect_drop_None [of xs ys]
  by (auto simp: with_children_def split: sum.splits)

text \<open>A node whose type is not \<^verbatim>\<open>"tag"\<close> is never dropped and keeps its attributes.\<close>

lemma sanitize_other_type:
  "ty \<noteq> Some ''tag'' \<Longrightarrow>
   sanitize cfg (Node ty nm attrs ch d) = with_children (Node ty nm attrs ch d) (map_option (map (sanitize cfg)) ch)"
  by simp

lemma sanitize_untyped_leaf:
  "ty \<noteq> Some ''tag'' \<Longrightarrow> sanitize cfg (Node ty nm attrs None d) = Inr (Some (Node ty nm attrs None d))"
  by (simp add: with_children_def)

lemma sanitize_dropped:
  "is_element c \<Longrightarrow> name c = Some tag \<Longrightarrow> toLowerCase tag \<notin> set (safeTags cfg) \<Longrightarrow>
   sanitize cfg c = Inr None"
  by (cases c) (simp add: is_element_def)

lemma with_children_Some:
  "with_children n rs = Inr (Some out) \<Longrightarrow>
   ntype out = ntype n \<and> name out = name n \<and> attribs out = attribs n \<and> other out = other n \<and>
   (case rs of None \<Rightarrow> children out = children n
    | Some rs \<Rightarrow> \<exists>cs. rs = map Inr cs \<and> children out = Some (filter_Boolean cs))"
  by (cases n) (auto simp: with_children_def split: option.splits sum.splits dest: collect_Inr)

lemma with_children_not_None: "with_children n rs \<noteq> Inr None"
  by (auto simp: with_children_def split: option.splits sum.splits)

lemma sanitize_Some_cases:
  assumes "sanitize cfg (Node ty nm attrs ch d) = Inr (Some out)"
  shows "ntype out = ty \<and> name out = nm \<and> other out = d
       \<and> (ty = Some ''tag'' \<longrightarrow> (\<exists>tag as. nm = Some tag \<and> toLowerCase tag \<in> set (safeTags cfg) \<and>
             attrs = Some as \<and> attribs out = Some (sanitize_attribs cfg as)))
       \<and> (ty \<noteq> Some ''tag'' \<longrightarrow> attribs out = attrs)
       \<and> (case ch of None \<Rightarrow> children out = None
          | Some cs \<Rightarrow> \<exists>rs. map (sanitize cfg) cs = map Inr rs \<and> children out = Some (filter_Boolean rs))"
  using assms
  by (auto split: if_splits option.splits dest!: with_children_Some)

lemma sanitize_output_elements:
  "sanitize cfg n = Inr (Some out) \<Longrightarrow> m \<in> set (nodes_of out) \<Longrightarrow> is_element m \<Longrightarrow>
   \<exists>tag. name m = Some tag \<and> toLowerCase tag \<in> set (safeTags cfg)"
proof (induction cfg n arbitrary: out m rule: sanitize.induct)
  case (1 cfg ty nm attrs ch d)
  note facts = sanitize_Some_cases [OF "1.prems"(1)]
  show ?case
  proof (cases "m = out")
    case True
    with facts "1.prems"(3) show ?thesis by (auto simp: is_element_def)
  next
    case False
    obtain ty' nm' attrs' ch' d' where out: "out = Node ty' nm' attrs' ch' d'" by (cases out)
    with False "1.prems"(2) obtain cs' c' where ch': "ch' = Some cs'" and c': "c' \<in> set cs'"
        and m: "m \<in> set (nodes_of c')"
      by (auto split: option.splits)
    with facts out obtain cs rs where ch: "ch = Some cs" and rs: "map (sanitize cfg) cs = map Inr rs"
        and cs': "cs' = filter_Boolean rs"
      by (auto split: option.splits)
    from c' cs' have "Some c' \<in> set rs" by (simp add: set_filter_Boolean)
    then have "Inr (Some c') \<in> set (map (sanitize cfg) cs)" using rs by simp
    then obtain c where c: "c \<in> set cs" "sanitize cfg c = Inr (Some c')" by auto
    show ?thesis
    proof (cases "ty = Some ''tag''")
      case True
      with facts obtain tag as where "nm = Some tag" "toLowerCase tag \<in> set (safeTags cfg)" "attrs = Some as"
        by auto
      with "1.IH"(1) [OF True _ _ _ ch c(1) c(2) m "1.prems"(3)] show ?thesis by simp
    next
      case False
      from "1.IH"(2) [OF False ch c(1) c(2) m "1.prems"(3)] show ?thesis .
    qed
  qed
qed

lemma with_children_kept:
  "with_children (Node ty nm attrs ch d) (Some (map (sanitize cfg) cs)) =
     (case kept_children cfg cs of Inl e \<Rightarrow> Inl e | Inr cs' \<Rightarrow> Inr (Some (Node ty nm attrs (Some cs') d)))"
  by (simp add: with_children_def kept_children_def split: sum.splits)

lemma sanitize_children_cong:
  "kept_children cfg cs = kept_children cfg cs' \<Longrightarrow>
   sanitize cfg (Node ty nm attrs (Some cs) d) = sanitize cfg (Node ty nm attrs (Some cs') d)"
  by (simp add: with_children_kept split: option.splits)

lemma sanitize_delete_at:
  "p \<noteq> [] \<Longrightarrow> subtree_at p n = Some c \<Longrightarrow> is_element c \<Longrightarrow> name c = Some tag \<Longrightarrow>
   toLowerCase tag \<notin> set (safeTags cfg) \<Longrightarrow>
   sanitize cfg (delete_at p n) = sanitize cfg n"
proof (induction p n rule: delete_at.induct)
  case (1 n)
  then show ?case by simp
next
  case (2 i n)
  then obtain cs where cs: "children n = Some cs" "i < length cs" "cs ! i = c"
    by (auto split: option.splits if_splits)
  define xs ys where "xs = take i cs" and "ys = drop (Suc i) cs"
  have split: "cs = xs @ c # ys"
    unfolding xs_def ys_def using cs by (metis id_take_nth_drop)
  have none: "sanitize cfg c = Inr None"
    by (rule sanitize_dropped [OF "2.prems"(3,4,5)])
  have eq: "kept_children cfg (xs @ c # ys) = kept_children cfg (xs @ ys)"
    using collect_drop_None [of "map (sanitize cfg) xs" "map (sanitize cfg) ys"] none
    by (simp add: kept_children_def)
  show ?case
  proof (cases n)
    case (Node ty nm attrs ch d)
    with cs(1) have ch: "ch = Some cs" by simp
    have del: "delete_at [i] n = Node ty nm attrs (Some (xs @ ys)) d"
      using Node ch by (simp add: xs_def ys_def)
    have n: "n = Node ty nm attrs (Some (xs @ c # ys)) d"
      using Node ch split by simp
    show ?thesis
      unfolding del unfolding n by (rule sanitize_children_cong) (simp add: eq)
  qed
next
  case (3 i j p n)
  then obtain cs where cs: "children n = Some cs" "i < length cs" "subtree_at (j # p) (cs ! i) = Some c"
    by (auto split: option.splits if_splits)
  have "sanitize cfg (delete_at (j # p) (cs ! i)) = sanitize cfg (cs ! i)"
    using "3.IH" [OF cs(1,2)] cs(3) "3.prems" by simp
  then have "map (sanitize cfg) (cs[i := delete_at (j # p) (cs ! i)]) = map (sanitize cfg) cs"
    by (simp add: map_update list_update_same_conv cs(2))
  then have upd: "kept_children cfg (cs[i := delete_at (j # p) (cs ! i)]) = kept_children cfg cs"
    by (simp add: kept_children_def)
  show ?case
  proof (cases n)
    case (Node ty nm attrs ch d)
    with cs(1) have ch: "ch = Some cs" by simp
    have del: "delete_at (i # j # p) n = Node ty nm attrs (Some (cs[i := delete_at (j # p) (cs ! i)])) d"
      using Node ch cs(2) by simp
    show ?thesis
      unfolding del unfolding Node ch by (rule sanitize_children_cong) (rule upd)
  qed
qed

lemma update_fresh: "k \<notin> fst ` set al \<Longrightarrow> AList.update k v al = al @ [(k, v)]"
  by (induction al) auto

lemma map_of_foldl_update:
  "map_of (foldl (\<lambda>acc attr. if P attr then AList.update attr (g attr) acc else acc) acc ks) a =
     (if a \<in> set ks \<and> P a then Some (g a) else map_of acc a)"
  by (induction ks arbitrary: acc) (auto simp: update_conv')

lemma map_of_sanitize_attribs:
  "map_of (sanitize_attribs cfg attrs) a =
     (if toLowerCase a \<in> set (safeAttributes cfg) then map_of attrs a else None)"
proof (cases "a \<in> fst ` set attrs")
  case True
  then obtain v where "map_of attrs a = Some v"
    by (metis map_of_eq_None_iff not_Some_eq)
  with True show ?thesis
    by (simp add: sanitize_attribs_def map_of_foldl_update)
next
  case False
  then have "map_of attrs a = None" by (simp add: map_of_eq_None_iff)
  with False show ?thesis
    by (simp add: sanitize_attribs_def map_of_foldl_update)
qed

lemma foldl_update_distinct:
  "distinct ks \<Longrightarrow> set ks \<inter> fst ` set acc = {} \<Longrightarrow>
   foldl (\<lambda>acc attr. if P attr then AList.update attr (g attr) acc else acc) acc ks =
     acc @ map (\<lambda>k. (k, g k)) (filter P ks)"
proof (induction ks arbitrary: acc)
  case Nil
  then show ?case by simp
next
  case (Cons k ks)
  show ?case
  proof (cases "P k")
    case True
    from Cons.prems have fresh: "k \<notin> fst ` set acc" by auto
    have "set ks \<inter> fst ` set (acc @ [(k, g k)]) = {}"
      using Cons.prems by auto
    with Cons.IH [of "acc @ [(k, g k)]"] Cons.prems(1) True fresh show ?thesis
      by (simp add: update_fresh)
  next
    case False
    with Cons show ?thesis by auto
  qed
qed

lemma sanitize_attribs_filter:
  assumes "distinct (map fst attrs)"
  shows "sanitize_attribs cfg attrs = filter (\<lambda>(a, v). toLowerCase a \<in> set (safeAttributes cfg)) attrs"
proof -
  have "map (\<lambda>k. (k, the (map_of attrs k))) (filter P (map fst attrs)) = filter (\<lambda>(a, v). P a) attrs" for P
    using assms
  proof (induction attrs)
    case Nil
    then show ?case by simp
  next
    case (Cons kv attrs)
    obtain k v where kv: "kv = (k, v)" by (cases kv)
    have "map (\<lambda>k'. (k', the (map_of ((k, v) # attrs) k'))) (filter P (map fst attrs)) =
          map (\<lambda>k'. (k', the (map_of attrs k'))) (filter P (map fst attrs))"
      using Cons.prems kv by (intro map_cong) auto
    with Cons kv show ?case by auto
  qed
  then show ?thesis
    using assms by (simp add: sanitize_attribs_def foldl_update_distinct)
qed

lemma sanitize_attribs_allowed:
  "a \<in> fst ` set (sanitize_attribs cfg attrs) \<Longrightarrow> toLowerCase a \<in> set (safeAttributes cfg)"
  using map_of_sanitize_attribs [of cfg attrs a]
  by (metis map_of_eq_None_iff)


lemma sanitize_output_attribs:
  "sanitize cfg n = Inr (Some out) \<Longrightarrow> m \<in> set (nodes_of out) \<Longrightarrow> is_element m \<Longrightarrow>
   \<exists>as. attribs m = Some as \<and> (\<forall>a \<in> fst ` set as. toLowerCase a \<in> set (safeAttributes cfg))"
proof (induction cfg n arbitrary: out m rule: sanitize.induct)
  case (1 cfg ty nm attrs ch d)
  note facts = sanitize_Some_cases [OF "1.prems"(1)]
  show ?case
  proof (cases "m = out")
    case True
    with facts "1.prems"(3) obtain as where "attribs m = Some (sanitize_attribs cfg as)"
      by (auto simp: is_element_def)
    then show ?thesis
      using sanitize_attribs_allowed by auto
  next
    case False
    obtain ty' nm' attrs' ch' d' where out: "out = Node ty' nm' attrs' ch' d'" by (cases out)
    with False "1.prems"(2) obtain cs' c' where ch': "ch' = Some cs'" and c': "c' \<in> set cs'"
        and m: "m \<in> set (nodes_of c')"
      by (auto split: option.splits)
    with facts out obtain cs rs where ch: "ch = Some cs" and rs: "map (sanitize cfg) cs = map Inr rs"
        and cs': "cs' = filter_Boolean rs"
      by (auto split: option.splits)
    from c' cs' have "Some c' \<in> set rs" by (simp add: set_filter_Boolean)
    then have "Inr (Some c') \<in> set (map (sanitize cfg) cs)" using rs by simp
    then obtain c where c: "c \<in> set cs" "sanitize cfg c = Inr (Some c')" by auto
    show ?thesis
    proof (cases "ty = Some ''tag''")
      case True
      with facts obtain tag as where "nm = Some tag" "toLowerCase tag \<in> set (safeTags cfg)" "attrs = Some as"
        by auto
      with "1.IH"(1) [OF True _ _ _ ch c(1) c(2) m "1.prems"(3)] show ?thesis by simp
    next
      case False
      from "1.IH"(2) [OF False ch c(1) c(2) m "1.prems"(3)] show ?thesis .
    qed
  qed
qed


text \<open>
  What the sanitizer does on the node format whose field names it uses, for a fragment
  \<open>doc\<close> that it returns from: no node of type \<^verbatim>\<open>"tag"\<close> with a name outside
  \<^verbatim>\<open>safeTags\<close> is left in the result, and such a node at any path below the root is
  dropped with everything below it: the result is that of the fragment without it.
\<close>

theorem sanitize_drops_disallowed_tags:
  "(\<forall>out m. sanitize cfg doc = Inr (Some out) \<and> m \<in> set (nodes_of out) \<and> is_element m \<longrightarrow>
      (\<exists>tag. name m = Some tag \<and> toLowerCase tag \<in> set (safeTags cfg)))
   \<and> (\<forall>p c tag. p \<noteq> [] \<and> subtree_at p doc = Some c \<and> is_element c \<and> name c = Some tag \<and>
          toLowerCase tag \<notin> set (safeTags cfg) \<longrightarrow>
          sanitize cfg (delete_at p doc) = sanitize cfg doc)"
  using sanitize_output_elements sanitize_delete_at by blast

text \<open>
  An element of type \<^verbatim>\<open>"tag"\<close> with an allowed name keeps, of its attributes, those
  whose lower-cased name is in \<^verbatim>\<open>safeAttributes\<close>; in the whole result every attribute
  of such an element is an allowed one.
\<close>

theorem sanitize_filters_attributes:
  "(\<forall>a. map_of (sanitize_attribs cfg attrs) a =
        (if toLowerCase a \<in> set (safeAttributes cfg) then map_of attrs a else None))
   \<and> (distinct (map fst attrs) \<longrightarrow>
        sanitize_attribs cfg attrs = filter (\<lambda>(a, v). toLowerCase a \<in> set (safeAttributes cfg)) attrs)
   \<and> (\<forall>out m. sanitize cfg n = Inr (Some out) \<and> m \<in> set (nodes_of out) \<and> is_element m \<longrightarrow>
        (\<exists>as. attribs m = Some as \<and> (\<forall>a \<in> fst ` set as. toLowerCase a \<in> set (safeAttributes cfg))))"
  using map_of_sanitize_attribs sanitize_attribs_filter sanitize_output_attribs by blast

lemma sanitize_example:
  "sanitize config example_fragment =
     Inr (Some (Node (Some ''root'') None None
                  (Some [example_text ''Hi '', example_element ''b'' [] [example_text ''bold'']])
                  []))"
  by (simp add: example_fragment_def example_text_def example_element_def config_def
      toLowerCase_def sanitize_attribs_def with_children_def)

text \<open>
  C1 and C2 do not hold of the helper. The tests of \<^verbatim>\<open>sanitize\<close> read the fields
  \<^verbatim>\<open>type\<close> and \<^verbatim>\<open>children\<close>. The helper calls \<^verbatim>\<open>parse5.parseFragment\<close> and
  \<^verbatim>\<open>parse5.serialize\<close> without a tree adapter, and the nodes of parse5's own tree format
  have the fields \<^verbatim>\<open>nodeName\<close>, \<^verbatim>\<open>tagName\<close>, \<^verbatim>\<open>attrs\<close> and \<^verbatim>\<open>childNodes\<close>:
  none of the four fields of the model. On such a node both tests are false and the node is
  returned as it is, whatever element it stands for. And in the format that has the four
  fields (htmlparser2), the elements \<^verbatim>\<open>script\<close> and \<^verbatim>\<open>style\<close> have their own name as
  type, not \<^verbatim>\<open>"tag"\<close>, and pass the first test unchecked.

  C1 at the fragment of \<^verbatim>\<open><div onclick="steal()"><i>it</i></div>\<close>: a root node without
  the four fields is returned whole, and a \<^verbatim>\<open>script\<close> element is kept with its text.
\<close>

theorem sanitize_keeps_foreign_nodes:
  "sanitize cfg (Node None None None None d) = Inr (Some (Node None None None None d))
   \<and> sanitize config
       (Node (Some ''root'') None None
          (Some [Node (Some ''script'') (Some ''script'') (Some []) (Some [example_text ''steal()'']) []])
          [])
     = Inr (Some (Node (Some ''root'') None None
          (Some [Node (Some ''script'') (Some ''script'') (Some []) (Some [example_text ''steal()'']) []])
          []))"
  by (simp add: with_children_def example_text_def)

text \<open>
  C2 at the fragment of \<^verbatim>\<open><b onclick="steal()">bold</b>\<close>: the helper hands the fragment
  to the serializer as the parser built it, so the allowed element keeps an attribute that
  is not in \<^verbatim>\<open>safeAttributes\<close>.
\<close>

theorem safe_serializes_foreign_fragment:
  "safe cfg t (\<lambda>s. Inr (Node None None None None d)) serialize key =
     (case serialize (Some (Node None None None None d)) of
        Inl e \<Rightarrow> Inl e
      | Inr sanitized \<Rightarrow> Inr (SafeString sanitized))"
  by (simp add: safe_def with_children_def)

section \<open>Properties of \<^verbatim>\<open>copyMissing\<close>\<close>

lemma lookup_Cons:
  "lookup v (k # ks) = (case js_get v k of None \<Rightarrow> None | Some x \<Rightarrow> lookup x ks)"
  by (cases v) simp_all


lemma wf_json_child: "wf_json (JObj kvs) \<Longrightarrow> map_of kvs k = Some v \<Longrightarrow> wf_json v"
  by (auto dest: map_of_SomeD simp: image_iff)

lemma plain_keys_child: "plain_keys (JObj kvs) \<Longrightarrow> map_of kvs k = Some v \<Longrightarrow> plain_keys v"
  by (force dest: map_of_SomeD)

lemma plain_keys_props: "typeof (Some v) = ''object'' \<Longrightarrow> plain_keys v \<Longrightarrow> plain_keys (JObj (props v))"
  by (cases v) auto

lemma wf_json_props: "typeof (Some v) = ''object'' \<Longrightarrow> wf_json v \<Longrightarrow> wf_json (JObj (props v))"
  by (cases v) auto

lemma map_of_update:
  "map_of (AList.update k v al) k' = (if k' = k then Some v else map_of al k')"
  by (simp add: update_conv')

text \<open>The rounds of the loop, by what the target holds under the key.\<close>

lemma loop_throws:
  "(\<And>kvs. to \<noteq> JObj kvs) \<Longrightarrow>
   \<exists>m. copyMissing_loop ((key, v) # rest) to tn ksf = (Inl (Throw (TypeError m)), [])"
  by (cases to) auto

lemma loop_absent:
  "map_of kvs key = None \<Longrightarrow> key \<notin> set inherited \<Longrightarrow>
   copyMissing_loop ((key, v) # rest) (JObj kvs) tn ksf =
     (case copyMissing_loop rest (JObj (AList.update key v kvs)) tn ksf of
        (r, lines) \<Rightarrow> (r, missing_line tn ksf key # lines))"
  by simp

lemma loop_present_object:
  "map_of kvs key = Some tv \<Longrightarrow> typeof (Some v) = ''object'' \<Longrightarrow>
   copyMissing_loop ((key, v) # rest) (JObj kvs) tn ksf =
     (case copyMissing_loop (props v) tv tn (ksf @ key @ ''.'') of
        (Inl e, lines) \<Rightarrow> (Inl e, lines)
      | (Inr sub, lines) \<Rightarrow>
         (case copyMissing_loop rest (JObj (AList.update key sub kvs)) tn ksf of
            (r, lines') \<Rightarrow> (r, lines @ lines')))"
  by (simp split: prod.splits sum.splits)

lemma loop_other:
  "map_of kvs key \<noteq> None \<or> key \<in> set inherited \<Longrightarrow> typeof (Some v) \<noteq> ''object'' \<Longrightarrow>
   copyMissing_loop ((key, v) # rest) (JObj kvs) tn ksf = copyMissing_loop rest (JObj kvs) tn ksf"
  by auto

text \<open>
  Under a key that the target has only as an inherited member: a string of the default
  catalog is passed over, without a copy and without a line; at an object or \<^verbatim>\<open>null\<close>
  the program goes on into the built-in object.
\<close>

lemma loop_builtin:
  "map_of kvs key = None \<Longrightarrow> key \<in> set inherited \<Longrightarrow> typeof (Some v) = ''object'' \<Longrightarrow>
   copyMissing_loop ((key, v) # rest) (JObj kvs) tn ksf = (Inl (Builtin key), [])"
  by simp

text \<open>Induction over a run of the loop that returns, for a default catalog with plain keys.\<close>

lemma copyMissing_loop_induct [consumes 2, case_names Nil Absent Object Other]:
  assumes run: "copyMissing_loop ps to tn ksf = (Inr to', logs)"
    and plain: "plain_keys (JObj ps)"
    and Nil: "\<And>to tn ksf. P [] to tn ksf to []"
    and Absent: "\<And>key v rest kvs tn ksf to' logs'.
        map_of kvs key = None \<Longrightarrow> key \<notin> set inherited \<Longrightarrow> plain_keys (JObj rest) \<Longrightarrow>
        copyMissing_loop rest (JObj (AList.update key v kvs)) tn ksf = (Inr to', logs') \<Longrightarrow>
        P rest (JObj (AList.update key v kvs)) tn ksf to' logs' \<Longrightarrow>
        P ((key, v) # rest) (JObj kvs) tn ksf to' (missing_line tn ksf key # logs')"
    and Object: "\<And>key v rest kvs tv tn ksf sub logs1 to' logs2.
        map_of kvs key = Some tv \<Longrightarrow> typeof (Some v) = ''object'' \<Longrightarrow>
        plain_keys (JObj (props v)) \<Longrightarrow> plain_keys (JObj rest) \<Longrightarrow>
        copyMissing_loop (props v) tv tn (ksf @ key @ ''.'') = (Inr sub, logs1) \<Longrightarrow>
        P (props v) tv tn (ksf @ key @ ''.'') sub logs1 \<Longrightarrow>
        copyMissing_loop rest (JObj (AList.update key sub kvs)) tn ksf = (Inr to', logs2) \<Longrightarrow>
        P rest (JObj (AList.update key sub kvs)) tn ksf to' logs2 \<Longrightarrow>
        P ((key, v) # rest) (JObj kvs) tn ksf to' (logs1 @ logs2)"
    and Other: "\<And>key v rest kvs tv tn ksf to' logs.
        map_of kvs key = Some tv \<Longrightarrow> typeof (Some v) \<noteq> ''object'' \<Longrightarrow> plain_keys (JObj rest) \<Longrightarrow>
        copyMissing_loop rest (JObj kvs) tn ksf = (Inr to', logs) \<Longrightarrow>
        P rest (JObj kvs) tn ksf to' logs \<Longrightarrow>
        P ((key, v) # rest) (JObj kvs) tn ksf to' logs"
  shows "P ps to tn ksf to' logs"
  using run plain
proof (induction ps to tn ksf arbitrary: to' logs rule: copyMissing_loop.induct)
  case (1 to toName keySoFar)
  then show ?case using Nil by simp
next
  case (2 key v rest to toName keySoFar)
  from "2.prems"(2) have key: "key \<notin> set inherited" and prest: "plain_keys (JObj rest)"
    and pv: "plain_keys v"
    by simp_all
  from "2.prems"(1) obtain kvs where to: "to = JObj kvs"
    by (cases to) auto
  have b: "js_in key to = Inr (map_of kvs key \<noteq> None)"
    unfolding to using key by simp
  show ?case
  proof (cases "map_of kvs key")
    case None
    with "2.prems"(1) key obtain logs' where
      rest: "copyMissing_loop rest (JObj (AList.update key v kvs)) toName keySoFar = (Inr to', logs')"
      and logs: "logs = missing_line toName keySoFar key # logs'"
      unfolding to by (auto simp: loop_absent split: prod.splits)
    have "P rest (js_set to key v) toName keySoFar to' logs'"
      using "2.IH"(4) [OF b _ _ prest, of to' logs'] None rest unfolding to by simp
    then show ?thesis
      unfolding to logs using Absent [OF None key prest rest] by simp
  next
    case (Some tv)
    show ?thesis
    proof (cases "typeof (Some v) = ''object''")
      case obj: True
      from "2.prems"(1) obtain sub logs1 logs2 where
        sub: "copyMissing_loop (props v) tv toName (keySoFar @ key @ ''.'') = (Inr sub, logs1)"
        and rest: "copyMissing_loop rest (JObj (AList.update key sub kvs)) toName keySoFar = (Inr to', logs2)"
        and logs: "logs = logs1 @ logs2"
        unfolding to loop_present_object [OF Some obj]
        by (auto split: sum.splits prod.splits)
      have pp: "plain_keys (JObj (props v))" by (rule plain_keys_props [OF obj pv])
      have get: "js_get to key = Some tv" unfolding to using Some by simp
      have P1: "P (props v) tv toName (keySoFar @ key @ ''.'') sub logs1"
        using "2.IH"(1) [OF b _ obj get sub pp] Some by simp
      have P2: "P rest (js_set to key sub) toName keySoFar to' logs2"
        using "2.IH"(2) [OF b _ obj get sub [symmetric] refl _ prest, of to' logs2] Some rest
        unfolding to by simp
      from Object [OF Some obj pp prest sub P1 rest] P2
      show ?thesis unfolding to logs by simp
    next
      case False
      from "2.prems"(1) have rest: "copyMissing_loop rest (JObj kvs) toName keySoFar = (Inr to', logs)"
        unfolding to using Some False by (simp add: loop_other)
      have "P rest to toName keySoFar to' logs"
        using "2.IH"(3) [OF b _ False _ prest, of to' logs] Some rest unfolding to by simp
      with Other [OF Some False prest rest] show ?thesis unfolding to by simp
    qed
  qed
qed

lemma loop_frame:
  "copyMissing_loop ps to tn ksf = (Inr to', logs) \<Longrightarrow> plain_keys (JObj ps) \<Longrightarrow>
   k \<notin> fst ` set ps \<Longrightarrow> js_get to' k = js_get to k"
  by (induction rule: copyMissing_loop_induct) (auto simp: update_conv')

lemma loop_visited:
  "copyMissing_loop ps to tn ksf = (Inr to', logs) \<Longrightarrow> plain_keys (JObj ps) \<Longrightarrow>
   distinct (map fst ps) \<Longrightarrow>
   (key, v) \<in> set ps \<Longrightarrow>
   (js_get to key = None \<and> js_get to' key = Some v) \<or>
   (\<exists>tv. js_get to key = Some tv \<and> typeof (Some v) \<noteq> ''object'' \<and> js_get to' key = Some tv) \<or>
   (\<exists>tv sub logs1. js_get to key = Some tv \<and> typeof (Some v) = ''object'' \<and>
      copyMissing_loop (props v) tv tn (ksf @ key @ ''.'') = (Inr sub, logs1) \<and>
      js_get to' key = Some sub)"
proof (induction rule: copyMissing_loop_induct)
  case (Nil to tn ksf)
  then show ?case by simp
next
  case (Absent key' v' rest kvs tn ksf to' logs')
  show ?case
  proof (cases "key = key'")
    case True
    with Absent.prems have v: "v = v'" and fresh: "key \<notin> fst ` set rest"
      by (auto simp: image_iff)
    from loop_frame [OF Absent.hyps(4,3) fresh [unfolded True]] True v Absent.hyps(1)
    show ?thesis by (simp add: update_conv')
  next
    case False
    with Absent.prems have "(key, v) \<in> set rest" "distinct (map fst rest)" by auto
    from Absent.IH [OF this(2,1)] False show ?thesis by (simp add: update_conv')
  qed
next
  case (Object key' v' rest kvs tv tn ksf sub logs1 to' logs2)
  show ?case
  proof (cases "key = key'")
    case True
    with Object.prems have v: "v = v'" and fresh: "key \<notin> fst ` set rest"
      by (auto simp: image_iff)
    from loop_frame [OF Object.hyps(6,4) fresh [unfolded True]] True v Object.hyps(1,2,5)
    show ?thesis by (simp add: update_conv')
  next
    case False
    with Object.prems have "(key, v) \<in> set rest" "distinct (map fst rest)" by auto
    from Object.IH(2) [OF this(2,1)] False show ?thesis by (simp add: update_conv')
  qed
next
  case (Other key' v' rest kvs tv tn ksf to' logs)
  show ?case
  proof (cases "key = key'")
    case True
    with Other.prems have v: "v = v'" and fresh: "key \<notin> fst ` set rest"
      by (auto simp: image_iff)
    from loop_frame [OF Other.hyps(4,3) fresh [unfolded True]] True v Other.hyps(1,2)
    show ?thesis by simp
  next
    case False
    with Other.prems have "(key, v) \<in> set rest" "distinct (map fst rest)" by auto
    from Other.IH [OF this(2,1)] False show ?thesis by simp
  qed
qed

lemma merged_lookup:
  "wf_json from \<Longrightarrow> plain_keys from \<Longrightarrow> copyMissing from to tn ksf = (Inr to', logs) \<Longrightarrow>
   p \<noteq> [] \<Longrightarrow>
   lookup from p = Some v \<Longrightarrow>
   lookup to' p \<noteq> None \<and>
   (is_leaf v \<longrightarrow> lookup to' p = (case lookup to p of Some w \<Rightarrow> Some w | None \<Rightarrow> Some v))"
proof (induction p arbitrary: "from" to to' tn ksf logs)
  case Nil
  then show ?case by simp
next
  case (Cons k ks)
  from Cons.prems(5) obtain fkvs fv where "from": "from = JObj fkvs" and fv: "map_of fkvs k = Some fv"
      and v: "lookup fv ks = Some v"
    by (cases "from") (auto split: option.splits)
  from Cons.prems(1) "from" have dist: "distinct (map fst fkvs)" by simp
  from fv have mem: "(k, fv) \<in> set fkvs" by (rule map_of_SomeD)
  from Cons.prems(3) "from" have run: "copyMissing_loop fkvs to tn ksf = (Inr to', logs)"
    by (simp add: copyMissing_def)
  from Cons.prems(2) "from" have plain: "plain_keys (JObj fkvs)" by simp
  from loop_visited [OF run plain dist mem]
  consider (absent) "js_get to k = None" "js_get to' k = Some fv"
    | (other) tv where "js_get to k = Some tv" "typeof (Some fv) \<noteq> ''object''" "js_get to' k = Some tv"
    | (object) tv sub logs1 where "js_get to k = Some tv" "typeof (Some fv) = ''object''"
        "copyMissing_loop (props fv) tv tn (ksf @ k @ ''.'') = (Inr sub, logs1)" "js_get to' k = Some sub"
  proof (elim disjE exE conjE)
    show thesis if "js_get to k = None" "js_get to' k = Some fv"
      using that by (rule absent)
    show thesis if "js_get to k = Some tv" "typeof (Some fv) \<noteq> ''object''" "js_get to' k = Some tv" for tv
      using that by (rule other)
    show thesis if "js_get to k = Some tv" "typeof (Some fv) = ''object''"
        "copyMissing_loop (props fv) tv tn (ksf @ k @ ''.'') = (Inr sub, logs1)" "js_get to' k = Some sub"
      for tv sub logs1
      using that by (rule object)
  qed
  then show ?case
  proof cases
    case absent
    with v show ?thesis by (simp add: lookup_Cons)
  next
    case other
    then obtain s where "fv = JStr s" by (cases fv) auto
    with v have "ks = []" "v = fv" by (cases ks; simp)+
    with other show ?thesis by (simp add: lookup_Cons)
  next
    case object
    show ?thesis
    proof (cases ks)
      case Nil
      with v have vfv: "v = fv" by simp
      show ?thesis
      proof (cases "is_leaf v")
        case True
        with vfv object(2) have "fv = JNull" by (cases fv) auto
        with object(3) have "sub = tv" by simp
        with object Nil show ?thesis by (simp add: lookup_Cons)
      next
        case False
        with object Nil show ?thesis by (simp add: lookup_Cons)
      qed
    next
      case (Cons k' ks')
      with v obtain kvs' where fvo: "fv = JObj kvs'" by (cases fv) auto
      have wf: "wf_json fv" using Cons.prems(1) "from" fv by (auto dest: wf_json_child)
      have pl: "plain_keys fv" using plain fv by (rule plain_keys_child)
      have run': "copyMissing fv tv tn (ksf @ k @ ''.'') = (Inr sub, logs1)"
        using object(3) by (simp add: copyMissing_def)
      have "ks \<noteq> []" using Cons by simp
      from Cons.IH [OF wf pl run' this v] object(1,4) show ?thesis
        by (simp add: lookup_Cons)
    qed
  qed
qed

lemma backfilled_Nil [simp]: "\<not> backfilled from to []"
  by (simp add: backfilled_def)


lemma backfilled_leaf [simp]: "is_leaf from \<Longrightarrow> \<not> backfilled from to p"
  by (cases "from"; cases p) (auto simp: backfilled_def)










text \<open>When the merge returns.\<close>

lemma fits_iff:
  "fits (JObj fkvs) (JObj kvs) \<longleftrightarrow>
     (\<forall>k v tv. (k, v) \<in> set fkvs \<longrightarrow> map_of kvs k = Some tv \<longrightarrow> typeof (Some v) = ''object'' \<longrightarrow>
        fits v tv)"
  by (cases fkvs) (auto split: option.splits)

lemma fits_Cons:
  "fits (JObj ((key, v) # rest)) (JObj kvs) \<longleftrightarrow>
     (\<forall>tv. map_of kvs key = Some tv \<longrightarrow> typeof (Some v) = ''object'' \<longrightarrow> fits v tv) \<and>
     fits (JObj rest) (JObj kvs)"
  unfolding fits_iff by auto

lemma fits_update:
  assumes "key \<notin> fst ` set rest"
  shows "fits (JObj rest) (JObj (AList.update key x kvs)) = fits (JObj rest) (JObj kvs)"
proof -
  have "map_of (AList.update key x kvs) k = map_of kvs k" if "(k, v) \<in> set rest" for k v
    using that assms by (auto simp: map_of_update image_iff)
  then show ?thesis unfolding fits_iff by simp
qed

lemma fits_props: "typeof (Some v) = ''object'' \<Longrightarrow> fits (JObj (props v)) tv = fits v tv"
  by (cases v) auto

lemma fits_object: "fits (JObj (kv # rest)) to \<Longrightarrow> \<exists>kvs. to = JObj kvs"
  by (cases to) auto

lemma loop_returns:
  "wf_json (JObj ps) \<Longrightarrow> plain_keys (JObj ps) \<Longrightarrow> fits (JObj ps) to \<Longrightarrow>
   \<exists>to' logs. copyMissing_loop ps to tn ksf = (Inr to', logs)"
proof (induction ps to tn ksf rule: copyMissing_loop.induct)
  case (1 to toName keySoFar)
  then show ?case by simp
next
  case (2 key v rest to toName keySoFar)
  from "2.prems"(1) have fresh: "key \<notin> fst ` set rest" and wrest: "wf_json (JObj rest)"
    and wv: "wf_json v"
    by auto
  from "2.prems"(2) have key: "key \<notin> set inherited" and prest: "plain_keys (JObj rest)"
    and pv: "plain_keys v"
    by simp_all
  from fits_object [OF "2.prems"(3)] obtain kvs where to: "to = JObj kvs" by blast
  from "2.prems"(3) have head: "\<And>tv. map_of kvs key = Some tv \<Longrightarrow> typeof (Some v) = ''object'' \<Longrightarrow> fits v tv"
    and frest: "fits (JObj rest) (JObj kvs)"
    unfolding to fits_Cons by simp_all
  have b: "js_in key to = Inr (map_of kvs key \<noteq> None)"
    unfolding to using key by simp
  have fupd: "fits (JObj rest) (js_set to key x)" for x
    unfolding to using frest by (simp add: fits_update [OF fresh] del: fits.simps)
  show ?case
  proof (cases "map_of kvs key")
    case None
    from "2.IH"(4) [OF b _ wrest prest fupd] None obtain to' logs' where
      "copyMissing_loop rest (JObj (AList.update key v kvs)) toName keySoFar = (Inr to', logs')"
      unfolding to by auto
    then show ?thesis unfolding to loop_absent [OF None key] by simp
  next
    case (Some tv)
    show ?thesis
    proof (cases "typeof (Some v) = ''object''")
      case obj: True
      have get: "js_get to key = Some tv" unfolding to using Some by simp
      have wp: "wf_json (JObj (props v))" by (rule wf_json_props [OF obj wv])
      have pp: "plain_keys (JObj (props v))" by (rule plain_keys_props [OF obj pv])
      have fp: "fits (JObj (props v)) tv"
        unfolding fits_props [OF obj] by (rule head [OF Some obj])
      from "2.IH"(1) [OF b _ obj get wp pp fp] Some obtain sub logs1 where
        sub: "copyMissing_loop (props v) tv toName (keySoFar @ key @ ''.'') = (Inr sub, logs1)"
        by auto
      from "2.IH"(2) [OF b _ obj get sub [symmetric] refl wrest prest fupd] Some obtain to' logs2 where
        "copyMissing_loop rest (JObj (AList.update key sub kvs)) toName keySoFar = (Inr to', logs2)"
        unfolding to by auto
      with sub show ?thesis unfolding to loop_present_object [OF Some obj] by simp
    next
      case False
      from "2.IH"(3) [OF b _ False wrest prest] Some frest obtain to' logs' where
        "copyMissing_loop rest (JObj kvs) toName keySoFar = (Inr to', logs')"
        unfolding to by auto
      then show ?thesis unfolding to using Some False by (simp add: loop_other)
    qed
  qed
qed

text \<open>When the merge throws.\<close>

lemma loop_unfit:
  "wf_json (JObj ps) \<Longrightarrow> plain_keys (JObj ps) \<Longrightarrow> \<not> fits (JObj ps) to \<Longrightarrow>
   \<exists>m logs. copyMissing_loop ps to tn ksf = (Inl (Throw (TypeError m)), logs)"
proof (induction ps to tn ksf rule: copyMissing_loop.induct)
  case (1 to toName keySoFar)
  then show ?case by simp
next
  case (2 key v rest to toName keySoFar)
  from "2.prems"(1) have fresh: "key \<notin> fst ` set rest" and wrest: "wf_json (JObj rest)"
    and wv: "wf_json v"
    by auto
  from "2.prems"(2) have key: "key \<notin> set inherited" and prest: "plain_keys (JObj rest)"
    and pv: "plain_keys v"
    by simp_all
  show ?case
  proof (cases "\<exists>kvs. to = JObj kvs")
    case False
    then have "\<And>kvs. to \<noteq> JObj kvs" by blast
    from loop_throws [OF this] show ?thesis by blast
  next
    case True
    then obtain kvs where to: "to = JObj kvs" by blast
    have b: "js_in key to = Inr (map_of kvs key \<noteq> None)"
      unfolding to using key by simp
    from "2.prems"(3) have bad: "(\<exists>tv. map_of kvs key = Some tv \<and> typeof (Some v) = ''object'' \<and> \<not> fits v tv)
        \<or> \<not> fits (JObj rest) (JObj kvs)"
      unfolding to fits_Cons by blast
    have upd: "\<not> fits (JObj rest) (js_set to key x)" if "\<not> fits (JObj rest) (JObj kvs)" for x
      unfolding to using that by (simp add: fits_update [OF fresh] del: fits.simps)
    show ?thesis
    proof (cases "map_of kvs key")
      case None
      with bad have "\<not> fits (JObj rest) (JObj kvs)" by simp
      from "2.IH"(4) [OF b _ wrest prest upd [OF this]] None obtain m logs' where
        "copyMissing_loop rest (JObj (AList.update key v kvs)) toName keySoFar = (Inl (Throw (TypeError m)), logs')"
        unfolding to by auto
      then show ?thesis unfolding to loop_absent [OF None key] by simp
    next
      case (Some tv)
      show ?thesis
      proof (cases "typeof (Some v) = ''object''")
        case obj: True
        have get: "js_get to key = Some tv" unfolding to using Some by simp
        have wp: "wf_json (JObj (props v))" by (rule wf_json_props [OF obj wv])
        have pp: "plain_keys (JObj (props v))" by (rule plain_keys_props [OF obj pv])
        show ?thesis
        proof (cases "fits v tv")
          case False
          then have "\<not> fits (JObj (props v)) tv" unfolding fits_props [OF obj] .
          from "2.IH"(1) [OF b _ obj get wp pp this] Some obtain m logs1 where
            "copyMissing_loop (props v) tv toName (keySoFar @ key @ ''.'') = (Inl (Throw (TypeError m)), logs1)"
            by auto
          then show ?thesis unfolding to loop_present_object [OF Some obj] by simp
        next
          case True
          then have "fits (JObj (props v)) tv" unfolding fits_props [OF obj] .
          from loop_returns [OF wp pp this] obtain sub logs1 where
            sub: "copyMissing_loop (props v) tv toName (keySoFar @ key @ ''.'') = (Inr sub, logs1)"
            by blast
          from bad True Some have "\<not> fits (JObj rest) (JObj kvs)" by simp
          from "2.IH"(2) [OF b _ obj get sub [symmetric] refl wrest prest upd [OF this]] Some
          obtain m logs2 where
            "copyMissing_loop rest (JObj (AList.update key sub kvs)) toName keySoFar = (Inl (Throw (TypeError m)), logs2)"
            unfolding to by auto
          with sub show ?thesis unfolding to loop_present_object [OF Some obj] by simp
        qed
      next
        case False
        with bad have nf: "\<not> fits (JObj rest) (JObj kvs)" by simp
        from "2.IH"(3) [OF b _ False wrest prest] Some nf obtain m logs' where
          "copyMissing_loop rest (JObj kvs) toName keySoFar = (Inl (Throw (TypeError m)), logs')"
          unfolding to by auto
        then show ?thesis unfolding to using Some False by (simp add: loop_other)
      qed
    qed
  qed
qed

text \<open>
  C3, as stated, promises a merged catalog for every locale. The merge throws when the
  locale holds a string (or \<^verbatim>\<open>null\<close>) where the default catalog holds a mapping with
  a key: the operator \<^verbatim>\<open>in\<close> is applied to the string. Here the default catalog has
  the key path \<^verbatim>\<open>nav.home\<close> and no merged catalog is produced.
\<close>

theorem copyMissing_kind_counterexample:
  "lookup (JObj [(''nav'', JObj [(''home'', JStr ''Home'')])]) [''nav'', ''home''] = Some (JStr ''Home'')
   \<and> copyMissing (JObj [(''nav'', JObj [(''home'', JStr ''Home'')])])
        (JObj [(''nav'', JStr ''Start'')]) ''./locales/de.json'' []
      = (Inl (Throw (TypeError (''Cannot use '' @ [CHR 0x27] @ ''in'' @ [CHR 0x27]
               @ '' operator to search for '' @ [CHR 0x27] @ ''home'' @ [CHR 0x27] @ '' in Start''))), [])"
  by (simp add: copyMissing_def inherited_def)

text \<open>
  C3, amended. The default catalog \<open>catalog\<close> has no key twice in an object and no key
  that is the name of a member that every object inherits (under such a key, as
  \<^verbatim>\<open>constructor\<close>, the merge copies nothing). Then the merge into the catalog \<open>to\<close> of
  a locale returns if \<open>to\<close> fits, that is, holds an object wherever the default catalog
  holds an object with a key and \<open>to\<close> has the place; otherwise it throws a
  \<^verbatim>\<open>TypeError\<close> and there is no merged catalog. When it returns, the merged catalog has
  every key path of the default catalog, and at a path where the default catalog has a
  leaf it has the locale's own value if the locale had the path and the default's value
  otherwise.
\<close>

theorem copyMissing_backfills:
  assumes "wf_json (JObj catalog)" and "plain_keys (JObj catalog)"
  shows "(fits (JObj catalog) to \<longrightarrow>
            (\<exists>merged logs. copyMissing (JObj catalog) to toName keySoFar = (Inr merged, logs)))
       \<and> (\<not> fits (JObj catalog) to \<longrightarrow>
            (\<exists>m logs. copyMissing (JObj catalog) to toName keySoFar = (Inl (Throw (TypeError m)), logs)))
       \<and> (\<forall>merged logs p v.
            copyMissing (JObj catalog) to toName keySoFar = (Inr merged, logs) \<and>
            p \<noteq> [] \<and> lookup (JObj catalog) p = Some v \<longrightarrow>
            lookup merged p \<noteq> None \<and>
            (is_leaf v \<longrightarrow>
               lookup merged p = (case lookup to p of Some own \<Rightarrow> Some own | None \<Rightarrow> Some v)))"
proof (intro conjI impI allI)
  show "\<exists>merged logs. copyMissing (JObj catalog) to toName keySoFar = (Inr merged, logs)"
    if "fits (JObj catalog) to"
    unfolding copyMissing_def props.simps by (rule loop_returns [OF assms that])
  show "\<exists>m logs. copyMissing (JObj catalog) to toName keySoFar = (Inl (Throw (TypeError m)), logs)"
    if "\<not> fits (JObj catalog) to"
    unfolding copyMissing_def props.simps by (rule loop_unfit [OF assms that])
  fix merged logs p v
  assume a: "copyMissing (JObj catalog) to toName keySoFar = (Inr merged, logs) \<and>
            p \<noteq> [] \<and> lookup (JObj catalog) p = Some v"
  then have run: "copyMissing (JObj catalog) to toName keySoFar = (Inr merged, logs)"
    and p: "p \<noteq> []" and v: "lookup (JObj catalog) p = Some v"
    by simp_all
  note ml = merged_lookup [OF assms run p v]
  from ml show "lookup merged p \<noteq> None" by simp
  from ml show "lookup merged p = (case lookup to p of Some own \<Rightarrow> Some own | None \<Rightarrow> Some v)"
    if "is_leaf v"
    using that by simp
qed

theorem copyMissing_backfills_witness:
  "wf_json example_en \<and> plain_keys example_en \<and> fits example_en example_de
   \<and> copyMissing example_en example_de ''./locales/de.json'' [] =
     (Inr (JObj [(''nav'', JObj [(''home'', JStr ''Start''), (''about'', JStr ''About'')]),
                 (''greeting'', JStr ''Hello'')]),
      [(''warning'', Message ''Key greeting is missing from ./locales/de.json''),
       (''warning'', Message ''Key nav.about is missing from ./locales/de.json'')])
   \<and> lookup (JObj [(''nav'', JObj [(''home'', JStr ''Start''), (''about'', JStr ''About'')]),
                   (''greeting'', JStr ''Hello'')]) [''nav'', ''home''] = Some (JStr ''Start'')
   \<and> lookup (JObj [(''nav'', JObj [(''home'', JStr ''Start''), (''about'', JStr ''About'')]),
                   (''greeting'', JStr ''Hello'')]) [''nav'', ''about''] = Some (JStr ''About'')
   \<and> \<not> fits example_en (JObj [(''nav'', JStr ''Start'')])
   \<and> (\<exists>m logs. copyMissing example_en (JObj [(''nav'', JStr ''Start'')]) ''./locales/de.json'' [] =
        (Inl (Throw (TypeError m)), logs))"
proof -
  have run: "copyMissing example_en example_de ''./locales/de.json'' [] =
     (Inr (JObj [(''nav'', JObj [(''home'', JStr ''Start''), (''about'', JStr ''About'')]),
                 (''greeting'', JStr ''Hello'')]),
      [(''warning'', Message ''Key greeting is missing from ./locales/de.json''),
       (''warning'', Message ''Key nav.about is missing from ./locales/de.json'')])"
    by (simp add: copyMissing_def example_en_def example_de_def missing_line_def log_def inherited_def)
  have wf: "wf_json example_en" and plain: "plain_keys example_en"
    by (simp_all add: example_en_def inherited_def)
  have fit: "fits example_en example_de" and unfit: "\<not> fits example_en (JObj [(''nav'', JStr ''Start'')])"
    by (simp_all add: example_en_def example_de_def)
  have home: "lookup example_en [''nav'', ''home''] = Some (JStr ''Home'')"
    and about: "lookup example_en [''nav'', ''about''] = Some (JStr ''About'')"
    by (simp_all add: example_en_def)
  note inst1 = copyMissing_backfills [OF wf [unfolded example_en_def] plain [unfolded example_en_def],
      of example_de "''./locales/de.json''" "[]", folded example_en_def]
  note inst2 = copyMissing_backfills [OF wf [unfolded example_en_def] plain [unfolded example_en_def],
      of "JObj [(''nav'', JStr ''Start'')]" "''./locales/de.json''" "[]", folded example_en_def]
  from inst1 run home have a: "lookup (JObj [(''nav'', JObj [(''home'', JStr ''Start''), (''about'', JStr ''About'')]),
                   (''greeting'', JStr ''Hello'')]) [''nav'', ''home''] = Some (JStr ''Start'')"
    by (simp add: example_de_def)
  from inst1 run about have b: "lookup (JObj [(''nav'', JObj [(''home'', JStr ''Start''), (''about'', JStr ''About'')]),
                   (''greeting'', JStr ''Hello'')]) [''nav'', ''about''] = Some (JStr ''About'')"
    by (simp add: example_de_def)
  from inst2 unfit have c: "\<exists>m logs. copyMissing example_en (JObj [(''nav'', JStr ''Start'')]) ''./locales/de.json'' [] =
        (Inl (Throw (TypeError m)), logs)"
    by blast
  show ?thesis by (intro conjI wf plain fit run a b unfit c)
qed



section \<open>Properties of the build\<close>

subsection \<open>Paths\<close>

lemma split_path_nonempty [simp]: "split_path p \<noteq> []"
  by (induction p) (auto split: list.splits)


lemma join_path_append:
  "xs \<noteq> [] \<Longrightarrow> ys \<noteq> [] \<Longrightarrow> join_path (xs @ ys) = join_path xs @ ''/'' @ join_path ys"
proof (induction xs rule: join_path.induct)
  case 1
  then show ?case by simp
next
  case (2 s)
  then show ?case by (cases ys) simp_all
next
  case (3 s v va)
  then show ?case by simp
qed













subsection \<open>Steps\<close>

lemma out_ops_append [simp]: "out_ops (w @ w') = out_ops w @ out_ops w'"
  by (induction w rule: out_ops.induct) simp_all

lemma out_log_append [simp]: "out_log (w @ w') = out_log w @ out_log w'"
  by (induction w rule: out_log.induct) simp_all

lemma out_raised_append [simp]: "out_raised (w @ w') = out_raised w @ out_raised w'"
  by (induction w rule: out_raised.induct) simp_all

lemma out_raised_Logged [simp]: "out_raised (map Logged ls) = []"
  by (induction ls) simp_all






text \<open>A call that throws ends the step with this exception, which is the next event.\<close>

lemma halt_io_eq:
  "halt_io h w = (r, w') \<longleftrightarrow>
     r = Inl h \<and> w' = (case h of Throw err \<Rightarrow> w @ [Raised err] | Builtin k \<Rightarrow> w)"
  by (auto simp: halt_io_def)


lemma lift_Inl: "lift r w = (Inl h, w') \<longleftrightarrow> (\<exists>err. r = Inl err \<and> h = Throw err \<and> w' = w @ [Raised err])"
  by (cases r) (auto simp: lift_def halt_io_def ret_def)

lemma lift_halt_Inr: "lift_halt r w = (Inr x, w') \<longleftrightarrow> r = Inr x \<and> w' = w"
  by (cases r) (auto simp: lift_halt_def halt_io_def ret_def)


lemma fs_do_Inl:
  "fs_do e op w = (Inl h, w') \<longleftrightarrow>
     (\<exists>err. fs_error e (out_ops w) op = Some err \<and> h = Throw err \<and> w' = w @ [Raised err])"
  by (auto simp: fs_do_def halt_io_def split: option.splits)


subsection \<open>The pages of a template\<close>













subsection \<open>Exceptions in a run\<close>


























subsection \<open>Where a run stops\<close>



















subsection \<open>Failures\<close>



section \<open>Properties of \<^verbatim>\<open>copyMissing\<close> on the store\<close>























end
